theory Spec2Isabelle
  imports Main "HOL-Library.Word"
begin

unbundle bit_operations_syntax

section \<open>GSC memory library: shallow embedding of \<open>gsc_memory_lib.py\<close>\<close>

text \<open>
  The embedding follows \<open>src/gsc_memory_lib.py\<close>. The module \<open>src/gsc_ram_fields.py\<close>
  carries textually identical copies of \<open>Encoding\<close>, \<open>MemField\<close>, the codecs,
  \<open>write_field\<close> and \<open>party_mon_base\<close>, so one definition stands for both.

  Python integers are unbounded: they are \<open>int\<close>. A \<open>bytes\<close> object is a list of
  8-bit words. Every \<open>raise\<close> of the source is a constructor of \<open>error\<close>, and a
  function that can raise returns \<open>error + 'a\<close> with \<open>Inl\<close> for the exception.
\<close>

subsection \<open>Errors\<close>

datatype error =
    SlotIndexRange
      \<comment> \<open>\<open>ValueError("slot_index must be in range 0..5")\<close>\<close>
  | LengthMismatch string int int
      \<comment> \<open>\<open>ValueError(f"{field.key}: expected {field.size} bytes, got {len(b)}")\<close>\<close>
  | BankNegative
      \<comment> \<open>\<open>ValueError("bank must be >= 0")\<close>\<close>
  | Bank0AddrRange
      \<comment> \<open>\<open>ValueError("bank 0 addr must be 0x0000..0x3FFF")\<close>\<close>
  | BankNAddrRange
      \<comment> \<open>\<open>ValueError("bank>0 addr must be 0x4000..0x7FFF")\<close>\<close>
  | MissingFileRange string
      \<comment> \<open>\<open>ValueError(f"{f.key}: missing file_range")\<close>\<close>
  | MissingBankAddrSize string
      \<comment> \<open>\<open>ValueError(f"{f.key}: missing bank_addr/size")\<close>\<close>
  | InvalidLiteral
      \<comment> \<open>the \<open>ValueError\<close> of the built-in \<open>int(x)\<close> on text that is no integer literal\<close>
  | NegativeCount
      \<comment> \<open>the \<open>ValueError\<close> of the built-in \<open>bytes(n)\<close> for \<open>n < 0\<close>\<close>
  | ByteRange
      \<comment> \<open>the \<open>ValueError\<close> of \<open>bytearray.append(x)\<close> for \<open>x\<close> outside \<open>range(256)\<close>\<close>
  | IndexError
      \<comment> \<open>list index out of range\<close>

type_synonym byte = "8 word"
type_synonym bytes = "byte list"

subsection \<open>RAM map constants and party slot helpers\<close>

text \<open>The address constants that the field tables below use; a tuple \<open>(first, last)\<close> is a pair.\<close>

definition BATTLE_YOUR_HP_IN_BATTLE :: int where "BATTLE_YOUR_HP_IN_BATTLE = 0xCB1C"
definition BATTLE_ENEMY_STATUS :: int where "BATTLE_ENEMY_STATUS = 0xD0FD"
definition BATTLE_TYPE :: int where "BATTLE_TYPE = 0xD116"
definition WILD_POKEMON_SPECIES :: int where "WILD_POKEMON_SPECIES = 0xD0ED"
definition WILD_POKEMON_LEVEL :: int where "WILD_POKEMON_LEVEL = 0xD0FC"
definition PLAYER_SPRITE_ID :: int where "PLAYER_SPRITE_ID = 0xD1FF"
definition PLAYER_CLOTHES :: int where "PLAYER_CLOTHES = 0xD203"
definition PLAYER_X_POS :: int where "PLAYER_X_POS = 0xD20D"
definition PLAYER_Y_POS :: int where "PLAYER_Y_POS = 0xD20E"
definition MAP_BANK :: int where "MAP_BANK = 0xDA00"
definition MAP_NUMBER :: int where "MAP_NUMBER = 0xDA01"
definition OVERWORLD_XY :: int where "OVERWORLD_XY = 0xDA02"
definition ON_BIKE_FLAG :: int where "ON_BIKE_FLAG = 0xD682"
definition REPEL_STEPS_LEFT :: int where "REPEL_STEPS_LEFT = 0xD9EB"
definition OPTIONS_BYTE :: int where "OPTIONS_BYTE = 0xD199"
definition TRAINER_ID :: "int \<times> int" where "TRAINER_ID = (0xD1A1, 0xD1A2)"
definition TRAINER_NAME :: "int \<times> int" where "TRAINER_NAME = (0xD1A3, 0xD1AC)"
definition WILD_BATTLES_ENABLED :: int where "WILD_BATTLES_ENABLED = 0xD20B"
definition MONEY :: "int \<times> int" where "MONEY = (0xD573, 0xD575)"
definition MOM_MONEY :: "int \<times> int" where "MOM_MONEY = (0xD576, 0xD578)"
definition CASINO_COINS :: "int \<times> int" where "CASINO_COINS = (0xD57A, 0xD57B)"
definition JOHTO_BADGES :: int where "JOHTO_BADGES = 0xD57C"
definition KANTO_BADGES :: int where "KANTO_BADGES = 0xD57D"
definition BAG_ITEM_COUNT :: int where "BAG_ITEM_COUNT = 0xD5B7"
definition KEY_ITEM_COUNT :: int where "KEY_ITEM_COUNT = 0xD5E1"
definition BALL_COUNT :: int where "BALL_COUNT = 0xD5FC"
definition PC_STORED_ITEMS_COUNT :: int where "PC_STORED_ITEMS_COUNT = 0xD616"
definition PARTY_COUNT :: int where "PARTY_COUNT = 0xDA22"
definition PARTY_SPECIES_LIST_START :: int where "PARTY_SPECIES_LIST_START = 0xDA23"

definition PARTY_MON_STRUCT_SIZE :: int where "PARTY_MON_STRUCT_SIZE = 0x30"
definition PARTY_MON_1_BASE :: int where "PARTY_MON_1_BASE = 0xDA2A"
definition PARTY_MON_SPECIES_OFF :: int where "PARTY_MON_SPECIES_OFF = 0x00"
definition PARTY_MON_HELD_ITEM_OFF :: int where "PARTY_MON_HELD_ITEM_OFF = 0x01"
definition PARTY_MON_MOVES_OFF :: int where "PARTY_MON_MOVES_OFF = 0x02"
definition PARTY_MON_ID_OFF :: int where "PARTY_MON_ID_OFF = 0x06"
definition PARTY_MON_EXP_OFF :: int where "PARTY_MON_EXP_OFF = 0x08"
definition PARTY_MON_PP_OFF :: int where "PARTY_MON_PP_OFF = 0x17"
definition PARTY_MON_HAPPINESS_OFF :: int where "PARTY_MON_HAPPINESS_OFF = 0x1B"
definition PARTY_MON_POKERUS_OFF :: int where "PARTY_MON_POKERUS_OFF = 0x1C"
definition PARTY_MON_LEVEL_OFF :: int where "PARTY_MON_LEVEL_OFF = 0x1F"
definition PARTY_MON_STATUS_OFF :: int where "PARTY_MON_STATUS_OFF = 0x20"
definition PARTY_MON_HP_OFF :: int where "PARTY_MON_HP_OFF = 0x22"
definition PARTY_MON_MAX_HP_OFF :: int where "PARTY_MON_MAX_HP_OFF = 0x24"
definition PARTY_MON_ATK_OFF :: int where "PARTY_MON_ATK_OFF = 0x26"
definition PARTY_MON_DEF_OFF :: int where "PARTY_MON_DEF_OFF = 0x28"
definition PARTY_MON_SPD_OFF :: int where "PARTY_MON_SPD_OFF = 0x2A"
definition PARTY_MON_SPDEF_OFF :: int where "PARTY_MON_SPDEF_OFF = 0x2C"
definition PARTY_MON_SPATK_OFF :: int where "PARTY_MON_SPATK_OFF = 0x2E"

definition party_mon_base :: "int \<Rightarrow> error + int" where
  "party_mon_base slot_index_0_to_5 =
     (if \<not> (0 \<le> slot_index_0_to_5 \<and> slot_index_0_to_5 \<le> 5) then Inl SlotIndexRange
      else Inr (PARTY_MON_1_BASE + (slot_index_0_to_5 * PARTY_MON_STRUCT_SIZE)))"

definition party_mon_field_addr :: "int \<Rightarrow> int \<Rightarrow> error + int" where
  "party_mon_field_addr slot_index_0_to_5 field_offset =
     (case party_mon_base slot_index_0_to_5 of
        Inl e \<Rightarrow> Inl e
      | Inr base \<Rightarrow> Inr (base + field_offset))"

subsection \<open>Python built-ins that the codecs use\<close>

text \<open>
  \<open>str(n)\<close> for a natural number: its decimal digits, most significant first. The digit
  \<open>d\<close> is the character with code \<open>48 + d\<close>.
\<close>

fun digit_chars :: "nat \<Rightarrow> string" where
  "digit_chars n =
     (if n < 10 then [char_of (48 + n)]
      else digit_chars (n div 10) @ [char_of (48 + n mod 10)])"

declare digit_chars.simps [simp del]

definition py_str :: "int \<Rightarrow> string" where
  \<comment> \<open>\<open>f"{v}"\<close> for an integer\<close>
  "py_str v = (if v < 0 then CHR ''-'' # digit_chars (nat (- v)) else digit_chars (nat v))"

definition zfill :: "nat \<Rightarrow> string \<Rightarrow> string" where
  "zfill w s = replicate (w - length s) CHR ''0'' @ s"

definition format_06d :: "int \<Rightarrow> string" where
  \<comment> \<open>\<open>f"{v:06d}"\<close>: zero padding to width 6, placed after the sign\<close>
  "format_06d v =
     (if v < 0 then CHR ''-'' # zfill 5 (digit_chars (nat (- v)))
      else zfill 6 (digit_chars (nat v)))"

definition int_of_char :: "char \<Rightarrow> error + int" where
  \<comment> \<open>\<open>int(ch)\<close> for a one-character string: a decimal digit, else \<open>ValueError\<close>\<close>
  "int_of_char ch =
     (let c = (of_char ch :: nat)
      in if 48 \<le> c \<and> c \<le> 57 then Inr (int c - 48) else Inl InvalidLiteral)"

fun ints_of_chars :: "string \<Rightarrow> error + int list" where
  \<comment> \<open>\<open>[int(ch) for ch in s]\<close>\<close>
  "ints_of_chars [] = Inr []"
| "ints_of_chars (ch # s) =
     (case int_of_char ch of
        Inl e \<Rightarrow> Inl e
      | Inr d \<Rightarrow> (case ints_of_chars s of Inl e \<Rightarrow> Inl e | Inr ds \<Rightarrow> Inr (d # ds)))"

definition list_get :: "'a list \<Rightarrow> nat \<Rightarrow> error + 'a" where
  \<comment> \<open>\<open>xs[i]\<close> for \<open>i \<ge> 0\<close>\<close>
  "list_get xs i = (if i < length xs then Inr (xs ! i) else Inl IndexError)"

definition bytearray_append :: "bytes \<Rightarrow> int \<Rightarrow> error + bytes" where
  \<comment> \<open>\<open>out.append(x)\<close> on a \<open>bytearray\<close>\<close>
  "bytearray_append out x =
     (if 0 \<le> x \<and> x < 256 then Inr (out @ [word_of_int x]) else Inl ByteRange)"

fun bytes_of_ints :: "int list \<Rightarrow> error + bytes" where
  \<comment> \<open>\<open>bytes((x0, x1, ...))\<close>: every item must be in \<open>range(256)\<close>\<close>
  "bytes_of_ints [] = Inr []"
| "bytes_of_ints (x # xs) =
     (if 0 \<le> x \<and> x < 256
      then (case bytes_of_ints xs of Inl e \<Rightarrow> Inl e | Inr bs \<Rightarrow> Inr (word_of_int x # bs))
      else Inl ByteRange)"

definition py_slice :: "'a list \<Rightarrow> int \<Rightarrow> int \<Rightarrow> 'a list" where
  \<comment> \<open>\<open>xs[start:stop]\<close>: a negative index counts from the end, both are clamped to \<open>0..len(xs)\<close>\<close>
  "py_slice xs start stop =
     (let n = int (length xs);
          lo = (if start < 0 then max (start + n) 0 else min start n);
          hi = (if stop < 0 then max (stop + n) 0 else min stop n)
      in take (nat (hi - lo)) (drop (nat lo) xs))"

subsection \<open>Typed RAM fields: encodings and codecs\<close>

datatype Encoding = U8 | U16_LE | U16_BE | U24_LE | U24_BCD | BYTES | TEXT_GSC

record MemField =
  key :: string
  addr :: int
  size_f :: int  \<comment> \<open>the source's field \<open>size\<close>\<close>
  enc :: Encoding
  doc :: string

definition bcd_digits :: "bytes \<Rightarrow> int list" where
  \<comment> \<open>the first loop of \<open>_decode_u24_bcd\<close>: two nibbles for each byte, high one first\<close>
  "bcd_digits b =
     concat (map (\<lambda>x. [(drop_bit 4 (uint x)) AND 0xF, (uint x) AND 0xF]) b)"

definition decode_u24_bcd :: "bytes \<Rightarrow> int" where
  \<comment> \<open>the second loop starts from \<open>val = 0\<close> and runs over the digits in order\<close>
  "decode_u24_bcd b = foldl (\<lambda>val d. (val * 10) + d) 0 (bcd_digits b)"

definition encode_u16_le :: "int \<Rightarrow> error + bytes" where
  "encode_u16_le v = bytes_of_ints [v AND 0xFF, (drop_bit 8 v) AND 0xFF]"

definition encode_u16_be :: "int \<Rightarrow> error + bytes" where
  "encode_u16_be v = bytes_of_ints [(drop_bit 8 v) AND 0xFF, v AND 0xFF]"

definition encode_u24_le :: "int \<Rightarrow> error + bytes" where
  "encode_u24_le v =
     bytes_of_ints [v AND 0xFF, (drop_bit 8 v) AND 0xFF, (drop_bit 16 v) AND 0xFF]"

fun pack_nibbles :: "int list \<Rightarrow> nat list \<Rightarrow> bytes \<Rightarrow> error + bytes" where
  \<comment> \<open>\<open>for i in ...: out.append((nibbles[i] << 4) | nibbles[i + 1])\<close>\<close>
  "pack_nibbles nibbles [] out = Inr out"
| "pack_nibbles nibbles (i # rest) out =
     (case list_get nibbles i of
        Inl e \<Rightarrow> Inl e
      | Inr hi \<Rightarrow>
          (case list_get nibbles (i + 1) of
             Inl e \<Rightarrow> Inl e
           | Inr lo \<Rightarrow>
               (case bytearray_append out ((push_bit 4 hi) OR lo) of
                  Inl e \<Rightarrow> Inl e
                | Inr out' \<Rightarrow> pack_nibbles nibbles rest out')))"

definition encode_u24_bcd :: "int \<Rightarrow> error + bytes" where
  "encode_u24_bcd v0 =
     (let v1 = (if v0 < 0 then 0 else v0);
          v = (if v1 > 999999 then 999999 else v1);
          s = format_06d v
      in case ints_of_chars s of
           Inl e \<Rightarrow> Inl e
         | Inr nibbles \<Rightarrow> pack_nibbles nibbles [0, 2, 4] [])"

text \<open>
  The BCD encoder in the words of the specification: clamp the input to \<open>[0, 999999]\<close>,
  take the six decimal digits of the clamped value, and pack each pair of digits into the
  high and low nibble of one byte.
\<close>

fun decimal_digits :: "nat \<Rightarrow> nat \<Rightarrow> nat list" where
  \<comment> \<open>the \<open>k\<close> low decimal digits of \<open>n\<close>, most significant first\<close>
  "decimal_digits 0 n = []"
| "decimal_digits (Suc k) n = decimal_digits k (n div 10) @ [n mod 10]"

definition bcd_clamp :: "int \<Rightarrow> int" where
  "bcd_clamp v = (if v < 0 then 0 else if v > 999999 then 999999 else v)"

definition bcd_pack :: "int \<Rightarrow> bytes" where
  "bcd_pack c =
     [word_of_int (16 * (c div 100000 mod 10) + c div 10000 mod 10),
      word_of_int (16 * (c div 1000 mod 10) + c div 100 mod 10),
      word_of_int (16 * (c div 10 mod 10) + c mod 10)]"

subsection \<open>Writing a field\<close>

text \<open>
  The value handed to \<open>write_field\<close> is an integer or a byte string, as at every call in
  the repository. \<open>int(value)\<close> of a byte string parses it as a decimal literal; that
  parser is a Python built-in outside the repository and is the parameter \<open>lit\<close>
  (\<open>None\<close> for text that is no literal). \<open>bytes(n)\<close> of an integer is \<open>n\<close> zero bytes.

  The writer is the caller's: it takes the address, the data and the storage and returns
  the storage it leaves, with \<open>Inl\<close> when it raises. \<open>write_field\<close> returns in the same
  way, so the storage left behind by a raise is visible.
\<close>

datatype pyvalue = VInt int | VBytes bytes

type_synonym 's WriteFn = "int \<Rightarrow> bytes \<Rightarrow> 's \<Rightarrow> (error + unit) \<times> 's"

definition py_int :: "(bytes \<Rightarrow> int option) \<Rightarrow> pyvalue \<Rightarrow> error + int" where
  "py_int lit value =
     (case value of
        VInt n \<Rightarrow> Inr n
      | VBytes b \<Rightarrow> (case lit b of None \<Rightarrow> Inl InvalidLiteral | Some n \<Rightarrow> Inr n))"

definition py_bytes :: "pyvalue \<Rightarrow> error + bytes" where
  "py_bytes value =
     (case value of
        VBytes b \<Rightarrow> Inr b
      | VInt n \<Rightarrow> (if n < 0 then Inl NegativeCount else Inr (replicate (nat n) 0)))"

definition err_bind :: "error + 'a \<Rightarrow> ('a \<Rightarrow> error + 'b) \<Rightarrow> error + 'b" where
  \<comment> \<open>evaluate the first expression, then the second on its value; a raise stops both\<close>
  "err_bind r f = (case r of Inl e \<Rightarrow> Inl e | Inr x \<Rightarrow> f x)"

definition call_write_mem :: "'s WriteFn \<Rightarrow> int \<Rightarrow> error + bytes \<Rightarrow> 's \<Rightarrow> (error + unit) \<times> 's" where
  \<comment> \<open>\<open>write_mem(a, <expr>)\<close>: the argument is evaluated first; if that raises, no call is made\<close>
  "call_write_mem write_mem a r s =
     (case r of Inl e \<Rightarrow> (Inl e, s) | Inr data \<Rightarrow> write_mem a data s)"

definition checked_blob :: "MemField \<Rightarrow> pyvalue \<Rightarrow> error + bytes" where
  \<comment> \<open>\<open>b = bytes(value)\<close>, then the length check of the \<open>BYTES\<close> and \<open>TEXT_GSC\<close> branches\<close>
  "checked_blob field value =
     err_bind (py_bytes value) (\<lambda>b.
       if int (length b) \<noteq> size_f field
       then Inl (LengthMismatch (key field) (size_f field) (int (length b)))
       else Inr b)"

definition write_field ::
  "(bytes \<Rightarrow> int option) \<Rightarrow> 's WriteFn \<Rightarrow> MemField \<Rightarrow> pyvalue \<Rightarrow> 's \<Rightarrow> (error + unit) \<times> 's" where
  "write_field lit write_mem field value s =
     (case enc field of
        U8 \<Rightarrow>
          call_write_mem write_mem (addr field)
            (err_bind (py_int lit value) (\<lambda>v. bytes_of_ints [v AND 0xFF])) s
      | U16_LE \<Rightarrow>
          call_write_mem write_mem (addr field) (err_bind (py_int lit value) encode_u16_le) s
      | U16_BE \<Rightarrow>
          call_write_mem write_mem (addr field) (err_bind (py_int lit value) encode_u16_be) s
      | U24_LE \<Rightarrow>
          call_write_mem write_mem (addr field) (err_bind (py_int lit value) encode_u24_le) s
      | U24_BCD \<Rightarrow>
          call_write_mem write_mem (addr field) (err_bind (py_int lit value) encode_u24_bcd) s
      | BYTES \<Rightarrow> call_write_mem write_mem (addr field) (checked_blob field value) s
      | TEXT_GSC \<Rightarrow> call_write_mem write_mem (addr field) (checked_blob field value) s)"

text \<open>
  A writer that only records its calls, in order: what \<open>write_field\<close> hands to the
  writer is then the list it returns.
\<close>

definition recording_writer :: "(int \<times> bytes) list WriteFn" where
  "recording_writer a data calls = (Inr (), calls @ [(a, data)])"

text \<open>
  The writer of the repository's tests (\<open>FakeMem.write_mem\<close>): a splice
  \<open>mem[addr:addr + len(data)] = data\<close> into a byte array.
\<close>

definition splice_writer :: "bytes WriteFn" where
  "splice_writer a data mem =
     (let n = int (length mem);
          stop = a + int (length data);
          lo = (if a < 0 then max (a + n) 0 else min a n);
          hi0 = (if stop < 0 then max (stop + n) 0 else min stop n);
          hi = max lo hi0
      in (Inr (), take (nat lo) mem @ data @ drop (nat hi) mem))"

subsection \<open>The RAM catalog\<close>

text \<open>
  A Python \<open>dict\<close> keeps its keys in insertion order, and storing under a key that is
  present replaces the value in place: an association list with \<open>dict_set\<close>. A dict
  display \<open>{k1: v1, k2: v2, ...}\<close> stores its items from left to right.
\<close>

type_synonym ('k, 'v) dict = "('k \<times> 'v) list"

fun dict_set :: "'k \<Rightarrow> 'v \<Rightarrow> ('k, 'v) dict \<Rightarrow> ('k, 'v) dict" where
  \<comment> \<open>\<open>d[k] = v\<close>\<close>
  "dict_set k v [] = [(k, v)]"
| "dict_set k v ((k', v') # d) = (if k' = k then (k, v) # d else (k', v') # dict_set k v d)"

definition dict_of :: "('k \<times> 'v) list \<Rightarrow> ('k, 'v) dict" where
  "dict_of items = foldl (\<lambda>d (k, v). dict_set k v d) [] items"

definition dict_values :: "('k, 'v) dict \<Rightarrow> 'v list" where
  "dict_values d = map snd d"

definition RAM_FIELDS_CORE :: "(string, MemField) dict" where
  "RAM_FIELDS_CORE = dict_of [
    (''player_sprite_id'', \<lparr>key = ''player_sprite_id'', addr = PLAYER_SPRITE_ID, size_f = 1, enc = U8, doc = ''Player sprite ID''\<rparr>),
    (''player_clothes'', \<lparr>key = ''player_clothes'', addr = PLAYER_CLOTHES, size_f = 1, enc = U8, doc = ''Player clothes''\<rparr>),
    (''options'', \<lparr>key = ''options'', addr = OPTIONS_BYTE, size_f = 1, enc = U8, doc = ''Options byte''\<rparr>),
    (''trainer_id'', \<lparr>key = ''trainer_id'', addr = fst TRAINER_ID, size_f = 2, enc = U16_LE, doc = ''Trainer ID''\<rparr>),
    (''player_name'', \<lparr>key = ''player_name'', addr = fst TRAINER_NAME, size_f = snd TRAINER_NAME - fst TRAINER_NAME + 1, enc = TEXT_GSC, doc = ''Player name (GSC text)''\<rparr>),
    (''wild_battles_enabled'', \<lparr>key = ''wild_battles_enabled'', addr = WILD_BATTLES_ENABLED, size_f = 1, enc = U8, doc = ''Wild battles flag''\<rparr>),
    (''player_x'', \<lparr>key = ''player_x'', addr = PLAYER_X_POS, size_f = 1, enc = U8, doc = ''Player X''\<rparr>),
    (''player_y'', \<lparr>key = ''player_y'', addr = PLAYER_Y_POS, size_f = 1, enc = U8, doc = ''Player Y''\<rparr>),
    (''map_bank'', \<lparr>key = ''map_bank'', addr = MAP_BANK, size_f = 1, enc = U8, doc = ''Map bank''\<rparr>),
    (''map_number'', \<lparr>key = ''map_number'', addr = MAP_NUMBER, size_f = 1, enc = U8, doc = ''Map number''\<rparr>),
    (''overworld_xy'', \<lparr>key = ''overworld_xy'', addr = OVERWORLD_XY, size_f = 2, enc = BYTES, doc = ''Overworld X then Y''\<rparr>),
    (''money'', \<lparr>key = ''money'', addr = fst MONEY, size_f = 3, enc = U24_BCD, doc = ''Money (3-byte BCD)''\<rparr>),
    (''mom_money'', \<lparr>key = ''mom_money'', addr = fst MOM_MONEY, size_f = 3, enc = U24_BCD, doc = ''Money held by Mom''\<rparr>),
    (''casino_coins'', \<lparr>key = ''casino_coins'', addr = fst CASINO_COINS, size_f = 2, enc = U16_LE, doc = ''Casino coins''\<rparr>),
    (''johto_badges'', \<lparr>key = ''johto_badges'', addr = JOHTO_BADGES, size_f = 1, enc = U8, doc = ''Johto badges bitfield''\<rparr>),
    (''kanto_badges'', \<lparr>key = ''kanto_badges'', addr = KANTO_BADGES, size_f = 1, enc = U8, doc = ''Kanto badges bitfield''\<rparr>),
    (''party_count'', \<lparr>key = ''party_count'', addr = PARTY_COUNT, size_f = 1, enc = U8, doc = ''Party count''\<rparr>),
    (''party_species'', \<lparr>key = ''party_species'', addr = PARTY_SPECIES_LIST_START, size_f = 6, enc = BYTES, doc = ''Party species list''\<rparr>),
    (''bag_item_count'', \<lparr>key = ''bag_item_count'', addr = BAG_ITEM_COUNT, size_f = 1, enc = U8, doc = ''Bag item count''\<rparr>),
    (''key_item_count'', \<lparr>key = ''key_item_count'', addr = KEY_ITEM_COUNT, size_f = 1, enc = U8, doc = ''Key item count''\<rparr>),
    (''ball_count'', \<lparr>key = ''ball_count'', addr = BALL_COUNT, size_f = 1, enc = U8, doc = ''Ball count''\<rparr>),
    (''pc_item_count'', \<lparr>key = ''pc_item_count'', addr = PC_STORED_ITEMS_COUNT, size_f = 1, enc = U8, doc = ''PC item count''\<rparr>),
    (''repel_steps'', \<lparr>key = ''repel_steps'', addr = REPEL_STEPS_LEFT, size_f = 1, enc = U8, doc = ''Repel steps left''\<rparr>),
    (''on_bike_flag'', \<lparr>key = ''on_bike_flag'', addr = ON_BIKE_FLAG, size_f = 1, enc = U8, doc = ''On bike flag''\<rparr>),
    (''battle_type'', \<lparr>key = ''battle_type'', addr = BATTLE_TYPE, size_f = 1, enc = U8, doc = ''Battle type''\<rparr>),
    (''wild_species'', \<lparr>key = ''wild_species'', addr = WILD_POKEMON_SPECIES, size_f = 1, enc = U8, doc = ''Wild species''\<rparr>),
    (''wild_level'', \<lparr>key = ''wild_level'', addr = WILD_POKEMON_LEVEL, size_f = 1, enc = U8, doc = ''Wild/enemy level''\<rparr>),
    (''your_hp_battle'', \<lparr>key = ''your_hp_battle'', addr = BATTLE_YOUR_HP_IN_BATTLE, size_f = 2, enc = U16_BE, doc = ''Your HP in battle''\<rparr>),
    (''enemy_status'', \<lparr>key = ''enemy_status'', addr = BATTLE_ENEMY_STATUS, size_f = 1, enc = U8, doc = ''Enemy status''\<rparr>)]"

definition party_slot_items :: "int \<Rightarrow> string \<Rightarrow> (string \<times> MemField) list" where
  \<comment> \<open>the items of the dict display that \<open>party_fields_for_slot\<close> returns, in order\<close>
  "party_slot_items base pfx = [
    (pfx @ ''.species'', \<lparr>key = pfx @ ''.species'', addr = base + PARTY_MON_SPECIES_OFF, size_f = 1, enc = U8, doc = ''Species''\<rparr>),
    (pfx @ ''.item'', \<lparr>key = pfx @ ''.item'', addr = base + PARTY_MON_HELD_ITEM_OFF, size_f = 1, enc = U8, doc = ''Held item''\<rparr>),
    (pfx @ ''.moves'', \<lparr>key = pfx @ ''.moves'', addr = base + PARTY_MON_MOVES_OFF, size_f = 4, enc = BYTES, doc = ''Moves''\<rparr>),
    (pfx @ ''.id'', \<lparr>key = pfx @ ''.id'', addr = base + PARTY_MON_ID_OFF, size_f = 2, enc = U16_BE, doc = ''OT/mon ID''\<rparr>),
    (pfx @ ''.exp'', \<lparr>key = pfx @ ''.exp'', addr = base + PARTY_MON_EXP_OFF, size_f = 3, enc = U24_LE, doc = ''EXP''\<rparr>),
    (pfx @ ''.pp'', \<lparr>key = pfx @ ''.pp'', addr = base + PARTY_MON_PP_OFF, size_f = 4, enc = BYTES, doc = ''PP''\<rparr>),
    (pfx @ ''.happiness'', \<lparr>key = pfx @ ''.happiness'', addr = base + PARTY_MON_HAPPINESS_OFF, size_f = 1, enc = U8, doc = ''Happiness''\<rparr>),
    (pfx @ ''.pokerus'', \<lparr>key = pfx @ ''.pokerus'', addr = base + PARTY_MON_POKERUS_OFF, size_f = 1, enc = U8, doc = ''Pokerus''\<rparr>),
    (pfx @ ''.level'', \<lparr>key = pfx @ ''.level'', addr = base + PARTY_MON_LEVEL_OFF, size_f = 1, enc = U8, doc = ''Level''\<rparr>),
    (pfx @ ''.status'', \<lparr>key = pfx @ ''.status'', addr = base + PARTY_MON_STATUS_OFF, size_f = 2, enc = U16_BE, doc = ''Status''\<rparr>),
    (pfx @ ''.hp'', \<lparr>key = pfx @ ''.hp'', addr = base + PARTY_MON_HP_OFF, size_f = 2, enc = U16_BE, doc = ''HP''\<rparr>),
    (pfx @ ''.max_hp'', \<lparr>key = pfx @ ''.max_hp'', addr = base + PARTY_MON_MAX_HP_OFF, size_f = 2, enc = U16_BE, doc = ''Max HP''\<rparr>),
    (pfx @ ''.atk'', \<lparr>key = pfx @ ''.atk'', addr = base + PARTY_MON_ATK_OFF, size_f = 2, enc = U16_BE, doc = ''Attack''\<rparr>),
    (pfx @ ''.def'', \<lparr>key = pfx @ ''.def'', addr = base + PARTY_MON_DEF_OFF, size_f = 2, enc = U16_BE, doc = ''Defense''\<rparr>),
    (pfx @ ''.spd'', \<lparr>key = pfx @ ''.spd'', addr = base + PARTY_MON_SPD_OFF, size_f = 2, enc = U16_BE, doc = ''Speed''\<rparr>),
    (pfx @ ''.spdef'', \<lparr>key = pfx @ ''.spdef'', addr = base + PARTY_MON_SPDEF_OFF, size_f = 2, enc = U16_BE, doc = ''Sp Def''\<rparr>),
    (pfx @ ''.spatk'', \<lparr>key = pfx @ ''.spatk'', addr = base + PARTY_MON_SPATK_OFF, size_f = 2, enc = U16_BE, doc = ''Sp Atk''\<rparr>)]"

definition party_fields_for_slot :: "int \<Rightarrow> error + (string, MemField) dict" where
  "party_fields_for_slot slot_index_0_to_5 =
     (case party_mon_base slot_index_0_to_5 of
        Inl e \<Rightarrow> Inl e
      | Inr base \<Rightarrow>
          (let pfx = ''party['' @ py_str slot_index_0_to_5 @ '']''
           in Inr (dict_of (party_slot_items base pfx))))"

fun iter_party_fields :: "int list \<Rightarrow> error + MemField list" where
  \<comment> \<open>\<open>for i in ...: yield from party_fields_for_slot(i).values()\<close>\<close>
  "iter_party_fields [] = Inr []"
| "iter_party_fields (i # rest) =
     (case party_fields_for_slot i of
        Inl e \<Rightarrow> Inl e
      | Inr d \<Rightarrow>
          (case iter_party_fields rest of
             Inl e \<Rightarrow> Inl e
           | Inr fs \<Rightarrow> Inr (dict_values d @ fs)))"

definition iter_all_party_fields :: "error + MemField list" where
  \<comment> \<open>\<open>range(6)\<close> is \<open>[0..5]\<close>\<close>
  "iter_all_party_fields = iter_party_fields [0..5]"

definition build_ram_catalog :: "bool \<Rightarrow> error + (string, MemField) dict" where
  "build_ram_catalog include_party =
     (let cat = RAM_FIELDS_CORE
      in if include_party
         then (case iter_all_party_fields of
                 Inl e \<Rightarrow> Inl e
               | Inr fs \<Rightarrow> Inr (foldl (\<lambda>cat f. dict_set (key f) f cat) cat fs))
         else Inr cat)"

text \<open>
  The width that an encoding gives a field, in the words of the specification: 1 for
  \<open>U8\<close>, 2 for \<open>U16_LE\<close> and \<open>U16_BE\<close>, 3 for \<open>U24_LE\<close> and \<open>U24_BCD\<close>, and the declared
  size for \<open>BYTES\<close> and \<open>TEXT_GSC\<close>.
\<close>

definition encoding_width :: "MemField \<Rightarrow> int" where
  "encoding_width f =
     (case enc f of
        U8 \<Rightarrow> 1 | U16_LE \<Rightarrow> 2 | U16_BE \<Rightarrow> 2 | U24_LE \<Rightarrow> 3 | U24_BCD \<Rightarrow> 3
      | BYTES \<Rightarrow> size_f f | TEXT_GSC \<Rightarrow> size_f f)"

subsection \<open>ROM map helpers\<close>

record RomBankAddr =
  bank :: int
  addr :: int

definition bankaddr_to_file_offset :: "RomBankAddr \<Rightarrow> error + int" where
  "bankaddr_to_file_offset p =
     (if bank p < 0 then Inl BankNegative
      else if bank p = 0 then
        (if \<not> (0x0000 \<le> RomBankAddr.addr p \<and> RomBankAddr.addr p \<le> 0x3FFF) then Inl Bank0AddrRange
         else Inr (RomBankAddr.addr p))
      else if \<not> (0x4000 \<le> RomBankAddr.addr p \<and> RomBankAddr.addr p \<le> 0x7FFF) then Inl BankNAddrRange
      else Inr ((bank p * 0x4000) + (RomBankAddr.addr p - 0x4000)))"

record RomRange =
  start_off :: int
  end_off_excl :: int
  desc :: string

definition read_rom_range :: "bytes \<Rightarrow> RomRange \<Rightarrow> bytes" where
  "read_rom_range rom r = py_slice rom (start_off r) (end_off_excl r)"

definition read_rom_bankaddr :: "bytes \<Rightarrow> RomBankAddr \<Rightarrow> int \<Rightarrow> error + bytes" where
  "read_rom_bankaddr rom p sz =
     (case bankaddr_to_file_offset p of
        Inl e \<Rightarrow> Inl e
      | Inr off \<Rightarrow> Inr (py_slice rom off (off + sz)))"

datatype RomLocKind = FILE_RANGE | BANK_ADDR

record RomField =
  key :: string
  kind :: RomLocKind
  desc :: string
  file_range :: "RomRange option"
  bank_addr :: "RomBankAddr option"
  size_f :: "int option"  \<comment> \<open>the source's field \<open>size\<close>\<close>

definition read_rom_field :: "bytes \<Rightarrow> RomField \<Rightarrow> error + bytes" where
  "read_rom_field rom f =
     (case kind f of
        FILE_RANGE \<Rightarrow>
          (case file_range f of
             None \<Rightarrow> Inl (MissingFileRange (RomField.key f))
           | Some r \<Rightarrow> Inr (read_rom_range rom r))
      | BANK_ADDR \<Rightarrow>
          (case bank_addr f of
             None \<Rightarrow> Inl (MissingBankAddrSize (RomField.key f))
           | Some p \<Rightarrow>
               (case RomField.size_f f of
                  None \<Rightarrow> Inl (MissingBankAddrSize (RomField.key f))
                | Some sz \<Rightarrow> read_rom_bankaddr rom p sz)))"

section \<open>Auxiliary facts\<close>

subsection \<open>Bit operations on integers\<close>

lemma and_15_int: "(k :: int) AND 0xF = k mod 16"
proof -
  have "k AND mask 4 = take_bit 4 k" by (simp only: take_bit_eq_mask)
  then show ?thesis by (simp add: take_bit_eq_mod mask_eq_exp_minus_1)
qed

lemma and_255_int: "(k :: int) AND 0xFF = k mod 256"
proof -
  have "k AND mask 8 = take_bit 8 k" by (simp only: take_bit_eq_mask)
  then show ?thesis by (simp add: take_bit_eq_mod mask_eq_exp_minus_1)
qed

lemma nibble_or_int:
  fixes hi lo :: int
  assumes "0 \<le> lo" "lo < 16"
  shows "(push_bit 4 hi) OR lo = 16 * hi + lo"
proof -
  have "take_bit 4 lo = lo" using assms by (simp add: take_bit_int_eq_self)
  then have "(push_bit 4 hi) OR lo = concat_bit 4 lo hi"
    by (simp add: concat_bit_def or.commute)
  also have "\<dots> = take_bit 4 lo + push_bit 4 hi" by (rule concat_bit_eq)
  finally show ?thesis using \<open>take_bit 4 lo = lo\<close> by (simp add: push_bit_eq_mult)
qed

subsection \<open>The nibbles of a byte\<close>

lemma bcd_digits_byte:
  "bcd_digits [x] = [uint x div 16, uint x mod 16]"
proof -
  have "uint x < 256" using uint_lt2p [of x] by simp
  moreover have "0 \<le> uint x" by simp
  ultimately have "0 \<le> uint x div 16" "uint x div 16 \<le> 255 div 16"
    by (simp_all add: pos_imp_zdiv_nonneg_iff zdiv_mono1)
  then have "(uint x div 16) mod 16 = uint x div 16"
    by (intro mod_pos_pos_trivial) simp_all
  then show ?thesis by (simp add: bcd_digits_def and_15_int drop_bit_eq_div)
qed

lemma bcd_digits_Cons: "bcd_digits (x # b) = [uint x div 16, uint x mod 16] @ bcd_digits b"
  using bcd_digits_byte [of x] by (simp add: bcd_digits_def)

lemma bcd_digits_Nil: "bcd_digits [] = []"
  by (simp add: bcd_digits_def)

subsection \<open>Decimal formatting\<close>

lemma char_of_48: "char_of (48 :: nat) = CHR ''0''"
  by (simp add: char_of_def bit_0)

lemma zfill_snoc: "zfill (Suc k) (xs @ [y]) = zfill k xs @ [y]"
  by (simp add: zfill_def)

lemma decimal_digits_zero: "decimal_digits k 0 = replicate k 0"
  by (induction k) (simp_all add: replicate_append_same)

lemma decimal_digits_below_10: "d \<in> set (decimal_digits k n) \<Longrightarrow> d < 10"
  by (induction k arbitrary: n) auto

lemma length_decimal_digits: "length (decimal_digits k n) = k"
  by (induction k arbitrary: n) auto

lemma zfill_digit_chars:
  "n < 10 ^ Suc k \<Longrightarrow>
   zfill (Suc k) (digit_chars n) = map (\<lambda>d. char_of (48 + d)) (decimal_digits (Suc k) n)"
proof (induction k arbitrary: n)
  case 0
  then show ?case by (simp add: digit_chars.simps [of n] zfill_def)
next
  case (Suc k)
  show ?case
  proof (cases "n < 10")
    case True
    then have "digit_chars n = [char_of (48 + n)]" by (simp add: digit_chars.simps [of n])
    moreover have "zfill (Suc (Suc k)) [char_of (48 + n)]
        = replicate (Suc k) CHR ''0'' @ [char_of (48 + n)]"
      by (simp add: zfill_def)
    moreover have "map (\<lambda>d. char_of (48 + d)) (decimal_digits (Suc k) 0) = replicate (Suc k) CHR ''0''"
      by (simp only: decimal_digits_zero map_replicate) (simp add: char_of_48)
    ultimately show ?thesis using True by (simp del: replicate_Suc decimal_digits.simps add: decimal_digits.simps(2) [of "Suc k" n])
  next
    case False
    then have dc: "digit_chars n = digit_chars (n div 10) @ [char_of (48 + n mod 10)]"
      by (simp add: digit_chars.simps [of n])
    from Suc.prems have "n div 10 < 10 ^ Suc k" by (simp add: less_mult_imp_div_less mult.commute)
    from Suc.IH [OF this] show ?thesis
      by (simp only: dc zfill_snoc decimal_digits.simps(2) [of "Suc k" n] map_append) simp
  qed
qed

lemma int_of_char_digit: "d < 10 \<Longrightarrow> int_of_char (char_of (48 + d)) = Inr (int d)"
  by (simp add: int_of_char_def Let_def)

lemma ints_of_chars_digits:
  "\<forall>d \<in> set ds. d < 10 \<Longrightarrow> ints_of_chars (map (\<lambda>d. char_of (48 + d)) ds) = Inr (map int ds)"
  by (induction ds) (simp_all add: int_of_char_digit)

lemma decimal_digits_6:
  "decimal_digits 6 n =
     [n div 100000 mod 10, n div 10000 mod 10, n div 1000 mod 10, n div 100 mod 10,
      n div 10 mod 10, n mod 10]"
proof -
  have d2: "n div 100 = n div 10 div 10" using div_mult2_eq [of n 10 10] by simp
  have d3: "n div 1000 = n div 10 div 10 div 10" using div_mult2_eq [of n 100 10] d2 by simp
  have d4: "n div 10000 = n div 10 div 10 div 10 div 10"
    using div_mult2_eq [of n 1000 10] d3 by simp
  have d5: "n div 100000 = n div 10 div 10 div 10 div 10 div 10"
    using div_mult2_eq [of n 10000 10] d4 by simp
  have six: "(6::nat) = Suc (Suc (Suc (Suc (Suc (Suc 0)))))" by simp
  show ?thesis unfolding six d2 d3 d4 d5 by simp
qed

lemma pack_nibbles_6:
  assumes "0 \<le> a \<and> a \<le> 9" "0 \<le> b \<and> b \<le> 9" "0 \<le> c \<and> c \<le> 9"
    "0 \<le> d \<and> d \<le> 9" "0 \<le> e \<and> e \<le> 9" "0 \<le> f \<and> f \<le> 9"
  shows "pack_nibbles [a, b, c, d, e, f] [0, 2, 4] [] =
     Inr [word_of_int (16 * a + b), word_of_int (16 * c + d), word_of_int (16 * e + f)]"
proof -
  have or_ab: "(push_bit 4 a) OR b = 16 * a + b" using assms by (intro nibble_or_int) simp_all
  have or_cd: "(push_bit 4 c) OR d = 16 * c + d" using assms by (intro nibble_or_int) simp_all
  have or_ef: "(push_bit 4 e) OR f = 16 * e + f" using assms by (intro nibble_or_int) simp_all
  have get: "list_get [a, b, c, d, e, f] 0 = Inr a" "list_get [a, b, c, d, e, f] (0 + 1) = Inr b"
    "list_get [a, b, c, d, e, f] 2 = Inr c" "list_get [a, b, c, d, e, f] (2 + 1) = Inr d"
    "list_get [a, b, c, d, e, f] 4 = Inr e" "list_get [a, b, c, d, e, f] (4 + 1) = Inr f"
    by (simp_all add: list_get_def eval_nat_numeral)
  have app: "bytearray_append out (16 * a + b) = Inr (out @ [word_of_int (16 * a + b)])"
    "bytearray_append out (16 * c + d) = Inr (out @ [word_of_int (16 * c + d)])"
    "bytearray_append out (16 * e + f) = Inr (out @ [word_of_int (16 * e + f)])" for out
    using assms by (simp_all add: bytearray_append_def)
  show ?thesis
    by (simp only: pack_nibbles.simps get or_ab or_cd or_ef app sum.case append.simps)
qed

lemma encode_u24_bcd_in_range:
  assumes "0 \<le> c" "c \<le> 999999"
  shows "encode_u24_bcd c = Inr (bcd_pack c)"
proof -
  let ?n = "nat c"
  have n: "?n < 10 ^ Suc 5" using assms by simp
  have six: "(6::nat) = Suc 5" by simp
  have "format_06d c = zfill 6 (digit_chars ?n)" using assms by (simp add: format_06d_def)
  then have fmt: "format_06d c = map (\<lambda>d. char_of (48 + d)) (decimal_digits 6 ?n)"
    using zfill_digit_chars [OF n] by (simp only: six)
  have nib: "ints_of_chars (format_06d c) = Inr (map int (decimal_digits 6 ?n))"
    unfolding fmt by (rule ints_of_chars_digits) (simp add: decimal_digits_below_10)
  have conv: "int (?n div k mod 10) = c div int k mod 10" for k
    using assms by (simp add: zdiv_int zmod_int)
  have digs: "map int (decimal_digits 6 ?n) =
      [c div 100000 mod 10, c div 10000 mod 10, c div 1000 mod 10, c div 100 mod 10,
       c div 10 mod 10, c mod 10]"
    using conv [of 100000] conv [of 10000] conv [of 1000] conv [of 100] conv [of 10] conv [of 1]
    by (simp add: decimal_digits_6)
  have "pack_nibbles (map int (decimal_digits 6 ?n)) [0, 2, 4] [] = Inr (bcd_pack c)"
    unfolding digs bcd_pack_def by (rule pack_nibbles_6) simp_all
  with nib assms show ?thesis by (simp add: encode_u24_bcd_def)
qed

lemma encode_u24_bcd_pack: "encode_u24_bcd v = Inr (bcd_pack (bcd_clamp v))"
proof -
  have c: "0 \<le> bcd_clamp v" "bcd_clamp v \<le> 999999" by (simp_all add: bcd_clamp_def)
  have "encode_u24_bcd v = encode_u24_bcd (bcd_clamp v)"
    by (simp add: encode_u24_bcd_def bcd_clamp_def)
  with encode_u24_bcd_in_range [OF c] show ?thesis by simp
qed

subsection \<open>Decoding what the encoder packs\<close>

lemma bcd_byte_nibbles:
  fixes a b :: int
  assumes "0 \<le> a" "a \<le> 9" "0 \<le> b" "b \<le> 9"
  shows "uint (word_of_int (16 * a + b) :: byte) div 16 = a"
    and "uint (word_of_int (16 * a + b) :: byte) mod 16 = b"
proof -
  have "0 \<le> 16 * a + b" "16 * a + b < 256" using assms by simp_all
  then have u: "uint (word_of_int (16 * a + b) :: byte) = 16 * a + b"
    by (simp only: uint_word_of_int) simp
  show "uint (word_of_int (16 * a + b) :: byte) div 16 = a" unfolding u using assms by simp
  show "uint (word_of_int (16 * a + b) :: byte) mod 16 = b" unfolding u using assms by simp
qed

lemma decimal_step:
  fixes x :: int
  assumes "0 < m"
  shows "x div (m * 10) * 10 + x div m mod 10 = x div m"
proof -
  have "x div (m * 10) = x div m div 10" by (rule zdiv_zmult2_eq) simp
  then show ?thesis by simp
qed

lemma six_digits_value:
  fixes c :: int
  assumes "0 \<le> c" "c \<le> 999999"
  shows "(((((c div 100000 mod 10) * 10 + c div 10000 mod 10) * 10 + c div 1000 mod 10) * 10
            + c div 100 mod 10) * 10 + c div 10 mod 10) * 10 + c mod 10 = c"
proof -
  have "c div 100000 < 10" using assms by simp
  moreover have "0 \<le> c div 100000" using assms by (simp add: pos_imp_zdiv_nonneg_iff)
  ultimately have top: "c div 100000 mod 10 = c div 100000" by simp
  have s4: "c div 100000 * 10 + c div 10000 mod 10 = c div 10000"
    using decimal_step [of 10000 c] by simp
  have s3: "c div 10000 * 10 + c div 1000 mod 10 = c div 1000"
    using decimal_step [of 1000 c] by simp
  have s2: "c div 1000 * 10 + c div 100 mod 10 = c div 100"
    using decimal_step [of 100 c] by simp
  have s1: "c div 100 * 10 + c div 10 mod 10 = c div 10"
    using decimal_step [of 10 c] by simp
  have s0: "c div 10 * 10 + c mod 10 = c" by simp
  show ?thesis by (simp only: top s4 s3 s2 s1 s0)
qed

lemma decode_bcd_pack:
  assumes "0 \<le> c" "c \<le> 999999"
  shows "decode_u24_bcd (bcd_pack c) = c"
proof -
  have r: "0 \<le> x mod 10" "x mod 10 \<le> 9" for x :: int by simp_all
  have "decode_u24_bcd (bcd_pack c) =
        (((((c div 100000 mod 10) * 10 + c div 10000 mod 10) * 10 + c div 1000 mod 10) * 10
            + c div 100 mod 10) * 10 + c div 10 mod 10) * 10 + c mod 10"
    unfolding bcd_pack_def decode_u24_bcd_def
    by (simp only: bcd_digits_Cons bcd_digits_Nil bcd_byte_nibbles [OF r r] append.simps
        foldl.simps mult_zero_left add_0_left)
  also have "\<dots> = c" using assms by (rule six_digits_value)
  finally show ?thesis .
qed

subsection \<open>Slices and bank windows\<close>

lemma py_slice_in_range:
  assumes "0 \<le> a" "a \<le> b" "b \<le> int (length xs)"
  shows "py_slice xs a b = take (nat (b - a)) (drop (nat a) xs)"
    and "length (py_slice xs a b) = nat (b - a)"
    and "\<forall>i < nat (b - a). py_slice xs a b ! i = xs ! (nat a + i)"
  using assms by (auto simp: py_slice_def Let_def min_def max_def)

lemma bank_window_unique:
  fixes b1 b2 a1 a2 :: int
  assumes "b1 * 0x4000 + a1 = b2 * 0x4000 + a2" "0 \<le> a1" "a1 < 0x4000" "0 \<le> a2" "a2 < 0x4000"
  shows "b1 = b2 \<and> a1 = a2"
proof -
  have "\<not> b1 < b2" using assms by linarith
  moreover have "\<not> b2 < b1" using assms by linarith
  ultimately have "b1 = b2" by linarith
  with assms show ?thesis by simp
qed

subsection \<open>Dicts, the catalog and what the writer receives\<close>

lemma set_dict_set: "set (dict_set k v d) \<subseteq> insert (k, v) (set d)"
  by (induction k v d rule: dict_set.induct) auto

lemma map_of_dict_set: "map_of (dict_set k v d) = (map_of d)(k \<mapsto> v)"
  by (induction k v d rule: dict_set.induct) (auto simp: fun_eq_iff)

lemma dict_items_pred:
  assumes "\<forall>(k, v) \<in> set d. P k v" and "\<forall>(k, v) \<in> set items. P k v"
  shows "\<forall>(k, v) \<in> set (foldl (\<lambda>d (k, v). dict_set k v d) d items). P k v"
  using assms
proof (induction items arbitrary: d)
  case Nil
  then show ?case by simp
next
  case (Cons item items)
  obtain k v where item: "item = (k, v)" by (cases item)
  have "\<forall>(k', v') \<in> set (dict_set k v d). P k' v'"
    using Cons.prems set_dict_set [of k v d] unfolding item by auto
  moreover have "\<forall>(k', v') \<in> set items. P k' v'" using Cons.prems by simp
  ultimately show ?case using Cons.IH unfolding item by simp
qed

lemma dict_of_pred:
  "\<forall>(k, v) \<in> set items. P k v \<Longrightarrow> \<forall>(k, v) \<in> set (dict_of items). P k v"
  unfolding dict_of_def by (rule dict_items_pred) simp_all

lemma dict_store_fields_pred:
  assumes "\<forall>(k, v) \<in> set d. P k v" and "\<forall>f \<in> set fs. P (MemField.key f) f"
  shows "\<forall>(k, v) \<in> set (foldl (\<lambda>cat f. dict_set (MemField.key f) f cat) d fs). P k v"
  using assms
proof (induction fs arbitrary: d)
  case Nil
  then show ?case by simp
next
  case (Cons f fs)
  have "\<forall>(k', v') \<in> set (dict_set (MemField.key f) f d). P k' v'"
    using Cons.prems set_dict_set [of "MemField.key f" f d] by auto
  moreover have "\<forall>f \<in> set fs. P (MemField.key f) f" using Cons.prems by simp
  ultimately show ?case using Cons.IH by simp
qed

lemma core_fields_width:
  "\<forall>(k, f) \<in> set RAM_FIELDS_CORE. MemField.key f = k \<and> MemField.size_f f = encoding_width f"
  unfolding RAM_FIELDS_CORE_def
  by (rule dict_of_pred) (simp add: encoding_width_def)

lemma party_slot_items_width:
  "\<forall>(k, f) \<in> set (party_slot_items base pfx).
     MemField.key f = k \<and> MemField.size_f f = encoding_width f"
  by (simp add: party_slot_items_def encoding_width_def)

lemma party_fields_width:
  assumes "party_fields_for_slot i = Inr d"
  shows "\<forall>(k, f) \<in> set d. MemField.key f = k \<and> MemField.size_f f = encoding_width f"
proof -
  from assms obtain base pfx where "d = dict_of (party_slot_items base pfx)"
    by (auto simp: party_fields_for_slot_def Let_def split: sum.splits)
  then show ?thesis using party_slot_items_width [of base pfx] by (simp add: dict_of_pred)
qed

lemma iter_party_fields_width:
  assumes "iter_party_fields slots = Inr fs"
  shows "\<forall>f \<in> set fs. MemField.size_f f = encoding_width f"
  using assms
proof (induction slots arbitrary: fs)
  case Nil
  then show ?case by simp
next
  case (Cons i slots)
  from Cons.prems obtain d rest where d: "party_fields_for_slot i = Inr d"
    and rest: "iter_party_fields slots = Inr rest" and fs: "fs = dict_values d @ rest"
    by (auto split: sum.splits)
  have "\<forall>f \<in> set (dict_values d). MemField.size_f f = encoding_width f"
    using party_fields_width [OF d] by (auto simp: dict_values_def)
  with Cons.IH [OF rest] fs show ?case by auto
qed

lemma build_ram_catalog_width:
  assumes "build_ram_catalog include_party = Inr cat"
  shows "\<forall>(k, f) \<in> set cat. MemField.size_f f = encoding_width f"
proof (cases include_party)
  case False
  with assms have "cat = RAM_FIELDS_CORE" by (simp add: build_ram_catalog_def)
  with core_fields_width show ?thesis by auto
next
  case True
  with assms obtain fs where fs: "iter_all_party_fields = Inr fs"
    and cat: "cat = foldl (\<lambda>cat f. dict_set (MemField.key f) f cat) RAM_FIELDS_CORE fs"
    by (auto simp: build_ram_catalog_def split: sum.splits)
  have "\<forall>f \<in> set fs. MemField.size_f f = encoding_width f"
    using fs iter_party_fields_width unfolding iter_all_party_fields_def by blast
  moreover have "\<forall>(k, f) \<in> set RAM_FIELDS_CORE. MemField.size_f f = encoding_width f"
    using core_fields_width by auto
  ultimately show ?thesis unfolding cat
    by (intro dict_store_fields_pred [where P = "\<lambda>k f. MemField.size_f f = encoding_width f"])
qed

lemma iter_party_fields_total:
  assumes "\<forall>i \<in> set slots. 0 \<le> i \<and> i \<le> 5"
  shows "\<exists>fs. iter_party_fields slots = Inr fs"
  using assms
proof (induction slots)
  case Nil
  then show ?case by simp
next
  case (Cons i slots)
  then obtain rest where "iter_party_fields slots = Inr rest" by auto
  moreover from Cons.prems have "\<exists>d. party_fields_for_slot i = Inr d"
    by (simp add: party_fields_for_slot_def party_mon_base_def Let_def)
  ultimately show ?case by auto
qed

lemma build_ram_catalog_total: "\<exists>cat. build_ram_catalog include_party = Inr cat"
proof -
  have "\<exists>fs. iter_all_party_fields = Inr fs"
    unfolding iter_all_party_fields_def by (rule iter_party_fields_total) simp
  then obtain fs where fs: "iter_all_party_fields = Inr fs" ..
  show ?thesis unfolding build_ram_catalog_def Let_def fs by simp
qed

lemma low_byte_range: "0 \<le> (x :: int) AND 0xFF" "(x :: int) AND 0xFF < 256"
  by (simp_all add: and_255_int)

lemma bytes_of_ints_1:
  "bytes_of_ints [x AND 0xFF] = Inr [word_of_int (x AND 0xFF)]"
  by (simp only: bytes_of_ints.simps low_byte_range) simp

lemma bytes_of_ints_2:
  "bytes_of_ints [x AND 0xFF, y AND 0xFF] = Inr [word_of_int (x AND 0xFF), word_of_int (y AND 0xFF)]"
  by (simp only: bytes_of_ints.simps low_byte_range) simp

lemma bytes_of_ints_3:
  "bytes_of_ints [x AND 0xFF, y AND 0xFF, z AND 0xFF] =
     Inr [word_of_int (x AND 0xFF), word_of_int (y AND 0xFF), word_of_int (z AND 0xFF)]"
  by (simp only: bytes_of_ints.simps low_byte_range) simp

lemma int_encoders_length:
  "\<exists>b. err_bind (Inr v) (\<lambda>v. bytes_of_ints [v AND 0xFF]) = Inr b \<and> length b = 1"
  "\<exists>b. encode_u16_le v = Inr b \<and> length b = 2"
  "\<exists>b. encode_u16_be v = Inr b \<and> length b = 2"
  "\<exists>b. encode_u24_le v = Inr b \<and> length b = 3"
  "\<exists>b. encode_u24_bcd v = Inr b \<and> length b = 3"
  by (simp_all only: err_bind_def sum.case encode_u16_le_def encode_u16_be_def encode_u24_le_def
      bytes_of_ints_1 bytes_of_ints_2 bytes_of_ints_3 encode_u24_bcd_pack bcd_pack_def)
    simp_all

lemma recorded_call:
  "call_write_mem recording_writer a r [] =
     (case r of Inl e \<Rightarrow> (Inl e, []) | Inr data \<Rightarrow> (Inr (), [(a, data)]))"
  by (simp add: call_write_mem_def recording_writer_def split: sum.splits)

lemma write_field_recorded:
  assumes "MemField.size_f f = encoding_width f"
  shows "case write_field lit recording_writer f value [] of
           (Inl e, calls) \<Rightarrow> calls = []
         | (Inr u, calls) \<Rightarrow>
             \<exists>data. calls = [(MemField.addr f, data)] \<and> int (length data) = MemField.size_f f"
proof (cases "enc f")
  case U8
  with assms have sz: "MemField.size_f f = 1" by (simp add: encoding_width_def)
  show ?thesis
  proof (cases "py_int lit value")
    case (Inl e)
    with U8 show ?thesis by (simp add: write_field_def recorded_call err_bind_def)
  next
    case (Inr v)
    with U8 int_encoders_length(1) [of v] sz show ?thesis
      by (auto simp: write_field_def recorded_call)
  qed
next
  case U16_LE
  with assms have sz: "MemField.size_f f = 2" by (simp add: encoding_width_def)
  show ?thesis
  proof (cases "py_int lit value")
    case (Inl e)
    with U16_LE show ?thesis by (simp add: write_field_def recorded_call err_bind_def)
  next
    case (Inr v)
    with U16_LE int_encoders_length(2) [of v] sz show ?thesis
      by (auto simp: write_field_def recorded_call err_bind_def)
  qed
next
  case U16_BE
  with assms have sz: "MemField.size_f f = 2" by (simp add: encoding_width_def)
  show ?thesis
  proof (cases "py_int lit value")
    case (Inl e)
    with U16_BE show ?thesis by (simp add: write_field_def recorded_call err_bind_def)
  next
    case (Inr v)
    with U16_BE int_encoders_length(3) [of v] sz show ?thesis
      by (auto simp: write_field_def recorded_call err_bind_def)
  qed
next
  case U24_LE
  with assms have sz: "MemField.size_f f = 3" by (simp add: encoding_width_def)
  show ?thesis
  proof (cases "py_int lit value")
    case (Inl e)
    with U24_LE show ?thesis by (simp add: write_field_def recorded_call err_bind_def)
  next
    case (Inr v)
    with U24_LE int_encoders_length(4) [of v] sz show ?thesis
      by (auto simp: write_field_def recorded_call err_bind_def)
  qed
next
  case U24_BCD
  with assms have sz: "MemField.size_f f = 3" by (simp add: encoding_width_def)
  show ?thesis
  proof (cases "py_int lit value")
    case (Inl e)
    with U24_BCD show ?thesis by (simp add: write_field_def recorded_call err_bind_def)
  next
    case (Inr v)
    with U24_BCD int_encoders_length(5) [of v] sz show ?thesis
      by (auto simp: write_field_def recorded_call err_bind_def)
  qed
next
  case BYTES
  then show ?thesis
    by (auto simp: write_field_def recorded_call checked_blob_def err_bind_def split: sum.splits)
next
  case TEXT_GSC
  then show ?thesis
    by (auto simp: write_field_def recorded_call checked_blob_def err_bind_def split: sum.splits)
qed

subsection \<open>Looking a key up in the catalog\<close>

lemma map_of_dict_items:
  "map_of (foldl (\<lambda>d (k, v). dict_set k v d) d items) = map_of d ++ map_of (rev items)"
proof (induction items arbitrary: d)
  case Nil
  then show ?case by simp
next
  case (Cons item items)
  obtain k v where item: "item = (k, v)" by (cases item)
  have "map_of (dict_set k v d) ++ map_of (rev items)
      = map_of d ++ (map_of [(k, v)] ++ map_of (rev items))"
    by (simp add: map_of_dict_set fun_eq_iff map_add_def split: option.splits)
  then show ?case unfolding item by (simp add: Cons.IH)
qed

lemma map_of_store_fields:
  assumes "\<forall>f \<in> set fs. MemField.key f \<noteq> k"
  shows "map_of (foldl (\<lambda>cat f. dict_set (MemField.key f) f cat) d fs) k = map_of d k"
  using assms by (induction fs arbitrary: d) (auto simp: map_of_dict_set)

lemma money_in_core:
  "map_of RAM_FIELDS_CORE ''money'' =
     Some \<lparr>MemField.key = ''money'', addr = 0xD573, size_f = 3, enc = U24_BCD,
            doc = ''Money (3-byte BCD)''\<rparr>"
  by (simp add: RAM_FIELDS_CORE_def dict_of_def map_of_dict_items MONEY_def)

subsection \<open>What the catalog contains\<close>

lemma keys_dict_set: "fst ` set (dict_set k v d) = insert k (fst ` set d)"
  by (induction k v d rule: dict_set.induct) auto

lemma distinct_dict_set:
  "distinct (map fst d) \<Longrightarrow> distinct (map fst (dict_set k v d))"
proof (induction k v d rule: dict_set.induct)
  case (1 k v)
  then show ?case by simp
next
  case (2 k v k' v' d)
  then show ?case using keys_dict_set [of k v d] by (auto simp: image_iff)
qed

lemma distinct_dict_items:
  "distinct (map fst d) \<Longrightarrow> distinct (map fst (foldl (\<lambda>d (k, v). dict_set k v d) d items))"
  by (induction items arbitrary: d) (auto simp: distinct_dict_set)

lemma distinct_dict_of: "distinct (map fst (dict_of items))"
  unfolding dict_of_def by (rule distinct_dict_items) simp

lemma dict_set_fresh: "k \<notin> fst ` set d \<Longrightarrow> dict_set k v d = d @ [(k, v)]"
  by (induction k v d rule: dict_set.induct) auto

lemma dict_items_fresh:
  "distinct (map fst (d @ items)) \<Longrightarrow> foldl (\<lambda>d (k, v). dict_set k v d) d items = d @ items"
proof (induction items arbitrary: d)
  case Nil
  then show ?case by simp
next
  case (Cons item items)
  obtain k v where item: "item = (k, v)" by (cases item)
  from Cons.prems have fresh: "k \<notin> fst ` set d" unfolding item by auto
  from Cons.prems have "distinct (map fst ((d @ [(k, v)]) @ items))" unfolding item by simp
  from Cons.IH [OF this] show ?case unfolding item by (simp add: dict_set_fresh [OF fresh])
qed

lemma dict_of_distinct: "distinct (map fst items) \<Longrightarrow> dict_of items = items"
  unfolding dict_of_def using dict_items_fresh [of "[]" items] by simp

lemma party_slot_items_distinct: "distinct (map fst (party_slot_items base pfx))"
  by (simp add: party_slot_items_def)

lemma length_party_slot_items: "length (party_slot_items base pfx) = 17"
  by (simp add: party_slot_items_def)

lemma py_str_digit:
  assumes "0 \<le> i" "i \<le> 5"
  shows "py_str i = [char_of (48 + nat i)]"
proof -
  have "nat i < 10" using assms by simp
  then have "digit_chars (nat i) = [char_of (48 + nat i)]"
    by (simp add: digit_chars.simps [of "nat i"])
  with assms show ?thesis by (simp add: py_str_def)
qed

lemma party_fields_for_slot_eq:
  assumes "0 \<le> i" "i \<le> 5"
  shows "party_fields_for_slot i =
     Inr (party_slot_items (PARTY_MON_1_BASE + i * PARTY_MON_STRUCT_SIZE)
            (''party['' @ [char_of (48 + nat i)] @ '']''))"
  using assms
  by (simp add: party_fields_for_slot_def party_mon_base_def Let_def py_str_digit
      dict_of_distinct party_slot_items_distinct del: append.simps)

lemma core_distinct: "distinct (map fst RAM_FIELDS_CORE)"
  unfolding RAM_FIELDS_CORE_def by (rule distinct_dict_of)

lemma length_core: "length RAM_FIELDS_CORE = 29"
  unfolding RAM_FIELDS_CORE_def by (subst dict_of_distinct) simp_all

lemma slot_char_inj:
  assumes "0 \<le> i" "i \<le> 5" "0 \<le> j" "j \<le> 5"
    and "char_of (48 + nat i) = (char_of (48 + nat j) :: char)"
  shows "i = j"
proof -
  from assms(5) have "(of_char (char_of (48 + nat i) :: char) :: nat)
      = of_char (char_of (48 + nat j) :: char)" by simp
  with assms(1-4) show ?thesis by simp
qed

lemma party_slot_items_slot_char:
  "\<forall>(k, f) \<in> set (party_slot_items base (''party['' @ [c] @ '']'')).
     MemField.key f = k \<and> k ! 6 = c \<and> CHR ''['' \<in> set k"
  by (simp add: party_slot_items_def)

lemma core_keys_no_bracket:
  "\<forall>(k, f) \<in> set RAM_FIELDS_CORE. CHR ''['' \<notin> set k"
  unfolding RAM_FIELDS_CORE_def by (rule dict_of_pred) simp

lemma iter_party_fields_from:
  assumes "iter_party_fields slots = Inr fs" and "g \<in> set fs"
  shows "\<exists>j \<in> set slots. \<exists>d. party_fields_for_slot j = Inr d \<and> g \<in> set (dict_values d)"
  using assms
proof (induction slots arbitrary: fs)
  case Nil
  then show ?case by simp
next
  case (Cons i slots)
  from Cons.prems(1) obtain d rest where d: "party_fields_for_slot i = Inr d"
    and rest: "iter_party_fields slots = Inr rest" and fs: "fs = dict_values d @ rest"
    by (auto split: sum.splits)
  show ?case
  proof (cases "g \<in> set (dict_values d)")
    case True
    with d show ?thesis by auto
  next
    case False
    with Cons.prems(2) fs have "g \<in> set rest" by simp
    from Cons.IH [OF rest this] show ?thesis by auto
  qed
qed

lemma iter_party_fields_has:
  assumes "iter_party_fields slots = Inr fs" and "j \<in> set slots"
    and "party_fields_for_slot j = Inr d"
  shows "set (dict_values d) \<subseteq> set fs"
  using assms(1,2)
proof (induction slots arbitrary: fs)
  case Nil
  then show ?case by simp
next
  case (Cons i slots)
  from Cons.prems(1) obtain di rest where di: "party_fields_for_slot i = Inr di"
    and rest: "iter_party_fields slots = Inr rest" and fs: "fs = dict_values di @ rest"
    by (auto split: sum.splits)
  show ?case
  proof (cases "j = i")
    case True
    with di assms(3) have "di = d" by simp
    with fs show ?thesis by simp
  next
    case False
    with Cons.prems(2) have "j \<in> set slots" by simp
    from Cons.IH [OF rest this] fs show ?thesis by auto
  qed
qed

lemma store_fields_lookup:
  assumes "\<forall>g \<in> set fs. MemField.key g = k \<longrightarrow> g = f"
    and "MemField.key f = k"
    and "f \<in> set fs \<or> map_of d k = Some f"
  shows "map_of (foldl (\<lambda>cat f. dict_set (MemField.key f) f cat) d fs) k = Some f"
  using assms
proof (induction fs arbitrary: d)
  case Nil
  then show ?case by simp
next
  case (Cons g fs)
  have all: "\<forall>g \<in> set fs. MemField.key g = k \<longrightarrow> g = f" using Cons.prems(1) by simp
  have "f \<in> set fs \<or> map_of (dict_set (MemField.key g) g d) k = Some f"
  proof (cases "MemField.key g = k")
    case True
    with Cons.prems(1) have "g = f" by simp
    with True show ?thesis by (simp add: map_of_dict_set)
  next
    case False
    with Cons.prems(2) have "f \<noteq> g" by auto
    with Cons.prems(3) have "f \<in> set fs \<or> map_of d k = Some f" by auto
    with False show ?thesis by (auto simp: map_of_dict_set)
  qed
  from Cons.IH [OF all Cons.prems(2) this] show ?case by simp
qed

lemma party_slot_item_props:
  assumes "(k, f) \<in> set (party_slot_items base (''party['' @ [c] @ '']''))"
  shows "MemField.key f = k" and "k ! 6 = c" and "CHR ''['' \<in> set k"
  using party_slot_items_slot_char [of base c] assms by blast+

lemma party_field_has_bracket:
  assumes "iter_party_fields [0..5] = Inr fs" and "g \<in> set fs"
  shows "CHR ''['' \<in> set (MemField.key g)"
proof -
  from iter_party_fields_from [OF assms] obtain j d where j: "j \<in> set [0..5]"
    and d: "party_fields_for_slot j = Inr d" and g: "g \<in> set (dict_values d)" by blast
  from j have "0 \<le> j" "j \<le> 5" by simp_all
  from party_fields_for_slot_eq [OF this] d
  have "d = party_slot_items (PARTY_MON_1_BASE + j * PARTY_MON_STRUCT_SIZE)
            (''party['' @ [char_of (48 + nat j)] @ '']'')" by simp
  moreover from g obtain k where "(k, g) \<in> set d" by (auto simp: dict_values_def)
  ultimately have kg: "(k, g) \<in> set (party_slot_items
      (PARTY_MON_1_BASE + j * PARTY_MON_STRUCT_SIZE)
      (''party['' @ [char_of (48 + nat j)] @ '']''))" by (simp only:)
  from party_slot_item_props(1) [OF kg] party_slot_item_props(3) [OF kg]
  show ?thesis by (simp only:)
qed

lemma core_in_catalog:
  assumes "build_ram_catalog True = Inr cat"
  shows "set RAM_FIELDS_CORE \<subseteq> set cat"
proof
  fix x assume x: "x \<in> set RAM_FIELDS_CORE"
  obtain k f where kf: "x = (k, f)" by (cases x)
  from assms obtain fs where fs: "iter_party_fields [0..5] = Inr fs"
    and cat: "cat = foldl (\<lambda>cat f. dict_set (MemField.key f) f cat) RAM_FIELDS_CORE fs"
    by (auto simp: build_ram_catalog_def iter_all_party_fields_def split: sum.splits)
  from x kf core_keys_no_bracket have "CHR ''['' \<notin> set k" by auto
  with party_field_has_bracket [OF fs] have "\<forall>g \<in> set fs. MemField.key g \<noteq> k" by auto
  then have "map_of cat k = map_of RAM_FIELDS_CORE k"
    unfolding cat by (rule map_of_store_fields)
  also from x kf core_distinct have "\<dots> = Some f" by simp
  finally show "x \<in> set cat" unfolding kf by (rule map_of_SomeD)
qed

lemma party_fields_in_catalog:
  assumes "build_ram_catalog True = Inr cat" and i: "0 \<le> i" "i \<le> 5"
  shows "set (party_slot_items (PARTY_MON_1_BASE + i * PARTY_MON_STRUCT_SIZE)
            (''party['' @ [char_of (48 + nat i)] @ '']'')) \<subseteq> set cat"
    (is "set ?d \<subseteq> _")
proof
  fix x assume x: "x \<in> set ?d"
  obtain k f where kf: "x = (k, f)" by (cases x)
  from assms(1) obtain fs where fs: "iter_party_fields [0..5] = Inr fs"
    and cat: "cat = foldl (\<lambda>cat f. dict_set (MemField.key f) f cat) RAM_FIELDS_CORE fs"
    by (auto simp: build_ram_catalog_def iter_all_party_fields_def split: sum.splits)
  have d: "party_fields_for_slot i = Inr ?d" using i by (rule party_fields_for_slot_eq)
  from x kf have kf_in: "(k, f) \<in> set ?d" by (simp only:)
  have key: "MemField.key f = k" by (rule party_slot_item_props(1) [OF kf_in])
  have ch: "k ! 6 = char_of (48 + nat i)" by (rule party_slot_item_props(2) [OF kf_in])
  have i_in: "i \<in> set [0..5]" using i by simp
  have "snd (k, f) \<in> snd ` set ?d" using kf_in by (rule imageI)
  then have "f \<in> set (dict_values ?d)" by (simp only: dict_values_def set_map snd_conv)
  with iter_party_fields_has [OF fs i_in d] have mem: "f \<in> set fs" by (rule subsetD)
  have same: "g = f" if g: "g \<in> set fs" and gk: "MemField.key g = k" for g
  proof -
    from iter_party_fields_from [OF fs g] obtain j dj where j: "j \<in> set [0..5]"
      and dj: "party_fields_for_slot j = Inr dj" and gd: "g \<in> set (dict_values dj)" by blast
    from j have j05: "0 \<le> j" "j \<le> 5" by simp_all
    from party_fields_for_slot_eq [OF j05] dj
    have dj_eq: "dj = party_slot_items (PARTY_MON_1_BASE + j * PARTY_MON_STRUCT_SIZE)
            (''party['' @ [char_of (48 + nat j)] @ '']'')" by simp
    from gd obtain k' where "(k', g) \<in> set dj" by (auto simp: dict_values_def)
    then have k': "(k', g) \<in> set (party_slot_items
        (PARTY_MON_1_BASE + j * PARTY_MON_STRUCT_SIZE)
        (''party['' @ [char_of (48 + nat j)] @ '']''))" unfolding dj_eq .
    have gk': "MemField.key g = k'" by (rule party_slot_item_props(1) [OF k'])
    have kk: "k' = k" using gk' [symmetric] gk by (rule trans)
    have cj: "k ! 6 = char_of (48 + nat j)"
      using party_slot_item_props(2) [OF k'] unfolding kk .
    have "char_of (48 + nat i) = (char_of (48 + nat j) :: char)"
      using ch [symmetric] cj by (rule trans)
    with i j05 have "i = j" by (rule slot_char_inj)
    then have ji: "j = i" by (rule sym)
    have kg: "(k, g) \<in> set ?d" using k' unfolding kk ji .
    from party_slot_items_distinct kg kf_in show ?thesis by (rule eq_key_imp_eq_value)
  qed
  then have all: "\<forall>g \<in> set fs. MemField.key g = k \<longrightarrow> g = f" by blast
  have "f \<in> set fs \<or> map_of RAM_FIELDS_CORE k = Some f" using mem by (rule disjI1)
  with all key have "map_of cat k = Some f" unfolding cat by (rule store_fields_lookup)
  then show "x \<in> set cat" unfolding kf by (rule map_of_SomeD)
qed

lemma py_str_5: "py_str 5 = ''5''"
proof -
  have "py_str 5 = [char_of (48 + nat 5)]" by (rule py_str_digit) simp_all
  also have "char_of (48 + nat 5) = CHR ''5''" by (simp add: char_of_def bit_0 bit_Suc)
  finally show ?thesis .
qed

section \<open>Party slot addressing\<close>

text \<open>
  Claim C5. \<open>party_mon_base slot\<close> returns \<open>0xDA2A + slot * 0x30\<close>
  (\<open>PARTY_MON_1_BASE + slot * PARTY_MON_STRUCT_SIZE\<close>) for every slot in \<open>0..5\<close>, and raises
  the range error for every other integer slot.
\<close>

theorem party_mon_base_spec:
  "party_mon_base slot =
     (if 0 \<le> slot \<and> slot \<le> 5
      then Inr (PARTY_MON_1_BASE + slot * PARTY_MON_STRUCT_SIZE)
      else Inl SlotIndexRange)
   \<and> PARTY_MON_1_BASE = 0xDA2A \<and> PARTY_MON_STRUCT_SIZE = 0x30"
  by (simp add: party_mon_base_def PARTY_MON_1_BASE_def PARTY_MON_STRUCT_SIZE_def)

theorem party_mon_base_spec_witness:
  "party_mon_base 3 = Inr 0xDABA \<and> party_mon_base 6 = Inl SlotIndexRange
   \<and> party_mon_base (- 1) = Inl SlotIndexRange"
  using party_mon_base_spec [of 3] party_mon_base_spec [of 6] party_mon_base_spec [of "- 1"]
  by simp

text \<open>
  Claim C6, as amended. For every slot in \<open>0..4\<close> both \<open>party_mon_base (slot + 1)\<close> and
  \<open>party_mon_base slot\<close> return, and their difference is \<open>0x30\<close>. At slot 5 the
  expression \<open>party_mon_base (slot + 1)\<close> is \<open>party_mon_base 6\<close>, which the range guard
  rejects, so the stride holds between neighbouring slots inside \<open>0..5\<close> only.
\<close>

theorem party_mon_base_stride:
  assumes "0 \<le> slot" and "slot \<le> 4"
  shows "\<exists>hi lo. party_mon_base (slot + 1) = Inr hi \<and> party_mon_base slot = Inr lo
           \<and> hi - lo = 0x30"
  using assms by (simp add: party_mon_base_def PARTY_MON_STRUCT_SIZE_def algebra_simps)

theorem party_mon_base_stride_witness:
  "(0::int) \<le> 4 \<and> (4::int) \<le> 4 \<and> party_mon_base (4 + 1) = Inr 0xDB1A \<and> party_mon_base 4 = Inr 0xDAEA
     \<and> (0xDB1A :: int) - 0xDAEA = 0x30"
  using party_mon_base_stride [of 4]
  by (simp add: party_mon_base_def PARTY_MON_STRUCT_SIZE_def PARTY_MON_1_BASE_def)

text \<open>
  Claim C6 as first stated ranges over slots \<open>0..5\<close>: at slot 5, which is in that range,
  \<open>party_mon_base 5\<close> returns and \<open>party_mon_base (5 + 1)\<close> raises the range error, so
  the difference has no value there.
\<close>

theorem party_mon_base_stride_counterexample:
  "(0::int) \<le> 5 \<and> (5::int) \<le> 5 \<and> party_mon_base 5 = Inr 0xDB1A \<and> party_mon_base (5 + 1) = Inl SlotIndexRange"
  by (simp add: party_mon_base_def PARTY_MON_STRUCT_SIZE_def PARTY_MON_1_BASE_def)

section \<open>ROM banking\<close>

text \<open>
  Claim C3. \<open>bankaddr_to_file_offset\<close> returns \<open>addr\<close> for bank 0 with \<open>addr\<close> in
  \<open>0x0000..0x3FFF\<close>, returns \<open>bank * 0x4000 + (addr - 0x4000)\<close> for a bank \<open>\<ge> 1\<close> with
  \<open>addr\<close> in \<open>0x4000..0x7FFF\<close>, and raises a range error in every other case: a
  negative bank, bank 0 with \<open>addr\<close> outside its window, a bank \<open>\<ge> 1\<close> with \<open>addr\<close>
  outside its window.
\<close>

theorem bankaddr_to_file_offset_spec:
  "bankaddr_to_file_offset p =
     (if bank p = 0 \<and> 0x0000 \<le> RomBankAddr.addr p \<and> RomBankAddr.addr p \<le> 0x3FFF
      then Inr (RomBankAddr.addr p)
      else if bank p \<ge> 1 \<and> 0x4000 \<le> RomBankAddr.addr p \<and> RomBankAddr.addr p \<le> 0x7FFF
      then Inr (bank p * 0x4000 + (RomBankAddr.addr p - 0x4000))
      else Inl (if bank p < 0 then BankNegative
                else if bank p = 0 then Bank0AddrRange else BankNAddrRange))"
  by (simp add: bankaddr_to_file_offset_def)

theorem bankaddr_to_file_offset_spec_witness:
  "bankaddr_to_file_offset \<lparr>bank = 0, addr = 0x0000\<rparr> = Inr 0x0000
   \<and> bankaddr_to_file_offset \<lparr>bank = 0, addr = 0x3FFF\<rparr> = Inr 0x3FFF
   \<and> bankaddr_to_file_offset \<lparr>bank = 1, addr = 0x4000\<rparr> = Inr 0x4000
   \<and> bankaddr_to_file_offset \<lparr>bank = 2, addr = 0x4000\<rparr> = Inr 0x8000
   \<and> bankaddr_to_file_offset \<lparr>bank = 0, addr = 0x4000\<rparr> = Inl Bank0AddrRange
   \<and> bankaddr_to_file_offset \<lparr>bank = 1, addr = 0x3FFF\<rparr> = Inl BankNAddrRange
   \<and> bankaddr_to_file_offset \<lparr>bank = - 1, addr = 0x4000\<rparr> = Inl BankNegative"
  using bankaddr_to_file_offset_spec [of "\<lparr>bank = 0, addr = 0x0000\<rparr>"]
    bankaddr_to_file_offset_spec [of "\<lparr>bank = 0, addr = 0x3FFF\<rparr>"]
    bankaddr_to_file_offset_spec [of "\<lparr>bank = 1, addr = 0x4000\<rparr>"]
    bankaddr_to_file_offset_spec [of "\<lparr>bank = 2, addr = 0x4000\<rparr>"]
    bankaddr_to_file_offset_spec [of "\<lparr>bank = 0, addr = 0x4000\<rparr>"]
    bankaddr_to_file_offset_spec [of "\<lparr>bank = 1, addr = 0x3FFF\<rparr>"]
    bankaddr_to_file_offset_spec [of "\<lparr>bank = - 1, addr = 0x4000\<rparr>"]
  by simp

text \<open>
  Claim C10. \<open>bankaddr_to_file_offset\<close> is injective on the pairs it accepts: two
  distinct banked addresses that both translate have distinct file offsets.
\<close>

theorem bankaddr_to_file_offset_injective:
  fixes p q :: RomBankAddr
  assumes "bankaddr_to_file_offset p = Inr a" and "bankaddr_to_file_offset q = Inr b"
    and "p \<noteq> q"
  shows "a \<noteq> b"
proof
  assume eq: "a = b"
  have "bank p = bank q \<and> RomBankAddr.addr p = RomBankAddr.addr q"
  proof (cases "bank p = 0")
    case True
    with assms(1) have p: "a = RomBankAddr.addr p" "0 \<le> a" "a \<le> 0x3FFF"
      by (auto simp: bankaddr_to_file_offset_def split: if_splits)
    show ?thesis
    proof (cases "bank q = 0")
      case True
      with assms(2) have "b = RomBankAddr.addr q"
        by (auto simp: bankaddr_to_file_offset_def split: if_splits)
      with p eq True \<open>bank p = 0\<close> show ?thesis by simp
    next
      case False
      with assms(2) have "b \<ge> 0x4000"
        by (auto simp: bankaddr_to_file_offset_def split: if_splits)
      with p eq show ?thesis by simp
    qed
  next
    case False
    with assms(1) have p: "a = bank p * 0x4000 + (RomBankAddr.addr p - 0x4000)" "1 \<le> bank p"
      "0 \<le> RomBankAddr.addr p - 0x4000" "RomBankAddr.addr p - 0x4000 < 0x4000"
      by (auto simp: bankaddr_to_file_offset_def split: if_splits)
    show ?thesis
    proof (cases "bank q = 0")
      case True
      with assms(2) have "b \<le> 0x3FFF"
        by (auto simp: bankaddr_to_file_offset_def split: if_splits)
      with p eq show ?thesis by simp
    next
      case False
      with assms(2) have q: "b = bank q * 0x4000 + (RomBankAddr.addr q - 0x4000)"
        "0 \<le> RomBankAddr.addr q - 0x4000" "RomBankAddr.addr q - 0x4000 < 0x4000"
        by (auto simp: bankaddr_to_file_offset_def split: if_splits)
      from bank_window_unique [of "bank p" "RomBankAddr.addr p - 0x4000" "bank q" "RomBankAddr.addr q - 0x4000"]
        p q eq show ?thesis by simp
    qed
  qed
  then have "p = q" by simp
  with assms(3) show False by simp
qed

theorem bankaddr_to_file_offset_injective_witness:
  "bankaddr_to_file_offset \<lparr>bank = 0, addr = 0x3FFF\<rparr> = Inr 0x3FFF
   \<and> bankaddr_to_file_offset \<lparr>bank = 1, addr = 0x4000\<rparr> = Inr 0x4000
   \<and> \<lparr>bank = 0, addr = 0x3FFF\<rparr> \<noteq> \<lparr>bank = 1, addr = (0x4000::int)\<rparr>
   \<and> (0x3FFF :: int) \<noteq> 0x4000"
proof -
  have 1: "bankaddr_to_file_offset \<lparr>bank = 0, addr = 0x3FFF\<rparr> = Inr 0x3FFF"
    by (simp add: bankaddr_to_file_offset_def)
  have 2: "bankaddr_to_file_offset \<lparr>bank = 1, addr = 0x4000\<rparr> = Inr 0x4000"
    by (simp add: bankaddr_to_file_offset_def)
  have 3: "\<lparr>bank = 0, addr = 0x3FFF\<rparr> \<noteq> \<lparr>bank = 1, addr = (0x4000::int)\<rparr>"
    by simp
  from bankaddr_to_file_offset_injective [OF 1 2 3] 1 2 3 show ?thesis by simp
qed

section \<open>Reading ROM fields\<close>

text \<open>
  Claim C8. For a \<open>RomField\<close> of kind \<open>FILE_RANGE\<close>, \<open>read_rom_field\<close> returns exactly the
  slice \<open>rom[start_off:end_off_excl]\<close> of the field's range when \<open>file_range\<close> is
  populated, and raises the missing-field error when it is absent.
\<close>

theorem read_rom_field_file_range:
  assumes "kind f = FILE_RANGE"
  shows "read_rom_field rom f =
     (case file_range f of
        Some r \<Rightarrow> Inr (py_slice rom (start_off r) (end_off_excl r))
      | None \<Rightarrow> Inl (MissingFileRange (RomField.key f)))"
  using assms by (simp add: read_rom_field_def read_rom_range_def split: option.splits)

theorem read_rom_field_file_range_witness:
  "kind \<lparr>RomField.key = ''wild.sample'', kind = FILE_RANGE, desc = ''Sample'',
      file_range = Some \<lparr>start_off = 2, end_off_excl = 5, desc = ''Sample''\<rparr>,
      bank_addr = None, size_f = None\<rparr> = FILE_RANGE
   \<and> read_rom_field [10, 11, 12, 13, 14, 15]
      \<lparr>RomField.key = ''wild.sample'', kind = FILE_RANGE, desc = ''Sample'',
       file_range = Some \<lparr>start_off = 2, end_off_excl = 5, desc = ''Sample''\<rparr>,
       bank_addr = None, size_f = None\<rparr> = Inr [12, 13, 14]
   \<and> read_rom_field [10, 11, 12, 13, 14, 15]
      \<lparr>RomField.key = ''wild.sample'', kind = FILE_RANGE, desc = ''Sample'',
       file_range = None, bank_addr = None, size_f = None\<rparr>
     = Inl (MissingFileRange ''wild.sample'')"
  using read_rom_field_file_range [of "\<lparr>RomField.key = ''wild.sample'', kind = FILE_RANGE, desc = ''Sample'',
      file_range = Some \<lparr>start_off = 2, end_off_excl = 5, desc = ''Sample''\<rparr>,
      bank_addr = None, size_f = None\<rparr>" "[10, 11, 12, 13, 14, 15]"]
    read_rom_field_file_range [of "\<lparr>RomField.key = ''wild.sample'', kind = FILE_RANGE, desc = ''Sample'',
      file_range = None, bank_addr = None, size_f = None\<rparr>" "[10, 11, 12, 13, 14, 15]"]
  by (simp add: py_slice_def)

section \<open>The BCD codec\<close>

text \<open>
  Claim C7. \<open>decode_u24_bcd\<close> is total on every 3-byte input: the model has no error
  branch, since no operation of the source function can raise on a \<open>bytes\<close> value, and
  the result is the multiply-accumulate \<open>val = val * 10 + nibble\<close> over the six nibbles
  in the order byte 0 high, byte 0 low, byte 1 high, byte 1 low, byte 2 high, byte 2 low,
  each nibble taken as it is, also above 9.
\<close>

theorem decode_u24_bcd_three_bytes:
  assumes "length b = 3"
  shows "decode_u24_bcd b =
     (((((uint (b ! 0) div 16) * 10 + uint (b ! 0) mod 16) * 10
          + uint (b ! 1) div 16) * 10 + uint (b ! 1) mod 16) * 10
          + uint (b ! 2) div 16) * 10 + uint (b ! 2) mod 16"
proof -
  from assms obtain b0 b1 b2 where b: "b = [b0, b1, b2]"
    by (cases b; cases "tl b"; cases "tl (tl b)") auto
  show ?thesis
    unfolding b decode_u24_bcd_def by (simp add: bcd_digits_Cons bcd_digits_Nil)
qed

theorem decode_u24_bcd_three_bytes_witness:
  "length [0xFF, 0x1A, 0x07 :: byte] = 3 \<and> decode_u24_bcd [0xFF, 0x1A, 0x07] = 1652007"
  using decode_u24_bcd_three_bytes [of "[0xFF, 0x1A, 0x07]"] by simp

text \<open>
  Claim C2. For every integer \<open>v\<close> in \<open>[0, 999999]\<close> the encoder returns three bytes, and
  decoding them gives \<open>v\<close> back.
\<close>

theorem bcd_roundtrip:
  assumes "0 \<le> v" and "v \<le> 999999"
  shows "\<exists>b. encode_u24_bcd v = Inr b \<and> length b = 3 \<and> decode_u24_bcd b = v"
proof -
  have "encode_u24_bcd v = Inr (bcd_pack v)" using assms by (rule encode_u24_bcd_in_range)
  moreover have "length (bcd_pack v) = 3" by (simp add: bcd_pack_def)
  moreover have "decode_u24_bcd (bcd_pack v) = v" using assms by (rule decode_bcd_pack)
  ultimately show ?thesis by blast
qed

theorem bcd_roundtrip_witness:
  "(0::int) \<le> 123456 \<and> (123456::int) \<le> 999999
   \<and> encode_u24_bcd 123456 = Inr [0x12, 0x34, 0x56] \<and> decode_u24_bcd [0x12, 0x34, 0x56] = 123456"
proof -
  have e: "encode_u24_bcd 123456 = Inr [0x12, 0x34, 0x56]"
    by (simp add: encode_u24_bcd_pack bcd_clamp_def bcd_pack_def)
  from bcd_roundtrip [of 123456] e show ?thesis by simp
qed

text \<open>
  Claim C4. \<open>encode_u24_bcd\<close> never raises: it clamps its input into \<open>[0, 999999]\<close>, so
  every negative input encodes as 0 does and every input above 999999 as 999999 does, and
  the result is the six decimal digits of the clamped value packed as nibble pairs into
  three bytes.
\<close>

theorem encode_u24_bcd_clamps:
  "encode_u24_bcd v = Inr (bcd_pack (bcd_clamp v))
   \<and> 0 \<le> bcd_clamp v \<and> bcd_clamp v \<le> 999999
   \<and> (v < 0 \<longrightarrow> encode_u24_bcd v = encode_u24_bcd 0)
   \<and> (v > 999999 \<longrightarrow> encode_u24_bcd v = encode_u24_bcd 999999)
   \<and> (0 \<le> v \<and> v \<le> 999999 \<longrightarrow> bcd_clamp v = v)"
  by (simp add: encode_u24_bcd_pack bcd_clamp_def)

theorem encode_u24_bcd_clamps_witness:
  "encode_u24_bcd (- 5) = Inr [0x00, 0x00, 0x00] \<and> encode_u24_bcd (- 5) = encode_u24_bcd 0
   \<and> encode_u24_bcd 1000000 = Inr [0x99, 0x99, 0x99]
   \<and> encode_u24_bcd 1000000 = encode_u24_bcd 999999
   \<and> encode_u24_bcd 54321 = Inr [0x05, 0x43, 0x21]"
  using encode_u24_bcd_clamps [of "- 5"] encode_u24_bcd_clamps [of 1000000]
    encode_u24_bcd_clamps [of 54321] encode_u24_bcd_clamps [of 0]
    encode_u24_bcd_clamps [of 999999]
  by (simp add: bcd_clamp_def bcd_pack_def)

section \<open>Writing fields\<close>

text \<open>
  Claim C1. For a field whose encoding is \<open>BYTES\<close> or \<open>TEXT_GSC\<close> and a byte string whose
  length differs from the field's size, \<open>write_field\<close> raises the length-mismatch error and
  never calls the writer, whatever the writer is: the storage is the one it was given, and
  the recording writer has recorded nothing. For a byte string of exactly the field's size
  the result is that of the single call \<open>write_mem(field.addr, value)\<close>, which the recording
  writer shows as one recorded call.
\<close>

theorem write_field_blob_length_check:
  assumes "enc field = BYTES \<or> enc field = TEXT_GSC"
  shows "write_field lit write_mem field (VBytes b) s =
           (if int (length b) \<noteq> MemField.size_f field
            then (Inl (LengthMismatch (MemField.key field) (MemField.size_f field) (int (length b))), s)
            else write_mem (MemField.addr field) b s)
         \<and> write_field lit recording_writer field (VBytes b) calls =
           (if int (length b) \<noteq> MemField.size_f field
            then (Inl (LengthMismatch (MemField.key field) (MemField.size_f field) (int (length b))), calls)
            else (Inr (), calls @ [(MemField.addr field, b)]))"
  using assms
  by (auto simp: write_field_def call_write_mem_def checked_blob_def err_bind_def py_bytes_def
      recording_writer_def)

theorem write_field_blob_length_check_witness:
  "(enc \<lparr>MemField.key = ''party[0].moves'', addr = 2, size_f = 4, enc = BYTES, doc = ''Moves''\<rparr> = BYTES
    \<or> enc \<lparr>MemField.key = ''party[0].moves'', addr = 2, size_f = 4, enc = BYTES, doc = ''Moves''\<rparr> = TEXT_GSC)
   \<and> write_field (\<lambda>b. None) splice_writer
        \<lparr>MemField.key = ''party[0].moves'', addr = 2, size_f = 4, enc = BYTES, doc = ''Moves''\<rparr>
        (VBytes [1, 2, 3]) [0, 0, 0, 0, 0, 0, 0, 0]
      = (Inl (LengthMismatch ''party[0].moves'' 4 3), [0, 0, 0, 0, 0, 0, 0, 0])
   \<and> write_field (\<lambda>b. None) recording_writer
        \<lparr>MemField.key = ''party[0].moves'', addr = 2, size_f = 4, enc = BYTES, doc = ''Moves''\<rparr>
        (VBytes [1, 2, 3]) [] = (Inl (LengthMismatch ''party[0].moves'' 4 3), [])
   \<and> write_field (\<lambda>b. None) splice_writer
        \<lparr>MemField.key = ''party[0].moves'', addr = 2, size_f = 4, enc = BYTES, doc = ''Moves''\<rparr>
        (VBytes [1, 2, 3, 4]) [0, 0, 0, 0, 0, 0, 0, 0]
      = (Inr (), [0, 0, 1, 2, 3, 4, 0, 0])
   \<and> write_field (\<lambda>b. None) recording_writer
        \<lparr>MemField.key = ''party[0].moves'', addr = 2, size_f = 4, enc = BYTES, doc = ''Moves''\<rparr>
        (VBytes [1, 2, 3, 4]) [] = (Inr (), [(2, [1, 2, 3, 4])])"
  using write_field_blob_length_check [of
      "\<lparr>MemField.key = ''party[0].moves'', addr = 2, size_f = 4, enc = BYTES, doc = ''Moves''\<rparr>"
      "\<lambda>b. None" splice_writer "[1, 2, 3]" "[0, 0, 0, 0, 0, 0, 0, 0]" "[]"]
    write_field_blob_length_check [of
      "\<lparr>MemField.key = ''party[0].moves'', addr = 2, size_f = 4, enc = BYTES, doc = ''Moves''\<rparr>"
      "\<lambda>b. None" splice_writer "[1, 2, 3, 4]" "[0, 0, 0, 0, 0, 0, 0, 0]" "[]"]
  by (simp add: splice_writer_def)

section \<open>The catalog's widths\<close>

text \<open>
  Claim C9. \<open>build_ram_catalog\<close> with the party slots included returns a catalog that
  holds the 29 rows of the core table and, for every slot in \<open>0..5\<close>, the 17 fields that
  \<open>party_fields_for_slot\<close> generates for it. For every field in the catalog the declared
  size is the width of its encoding (1 for \<open>U8\<close>, 2 for \<open>U16_LE\<close> and \<open>U16_BE\<close>, 3 for
  \<open>U24_LE\<close> and \<open>U24_BCD\<close>, the declared size for \<open>BYTES\<close> and \<open>TEXT_GSC\<close>). So for any
  value, \<open>write_field\<close> either raises without calling the writer, or returns after handing
  the writer exactly one byte string, at the field's address and of exactly the field's
  size.
\<close>

theorem ram_catalog_width_invariant:
  "\<exists>cat. build_ram_catalog True = Inr cat \<and>
     set RAM_FIELDS_CORE \<subseteq> set cat \<and>
     length RAM_FIELDS_CORE = 29 \<and> distinct (map fst RAM_FIELDS_CORE) \<and>
     (\<forall>i \<in> {0..5}. \<exists>d.
        party_fields_for_slot i = Inr d \<and>
        d = party_slot_items (PARTY_MON_1_BASE + i * PARTY_MON_STRUCT_SIZE)
              (''party['' @ py_str i @ '']'') \<and>
        length d = 17 \<and> distinct (map fst d) \<and> set d \<subseteq> set cat) \<and>
     (\<forall>(k, f) \<in> set cat.
        MemField.size_f f = encoding_width f \<and>
        (\<forall>lit value.
           case write_field lit recording_writer f value [] of
             (Inl e, calls) \<Rightarrow> calls = []
           | (Inr u, calls) \<Rightarrow>
               \<exists>data. calls = [(MemField.addr f, data)]
                 \<and> int (length data) = MemField.size_f f))"
proof -
  obtain cat where cat: "build_ram_catalog True = Inr cat"
    using build_ram_catalog_total [of True] ..
  have core: "set RAM_FIELDS_CORE \<subseteq> set cat" using cat by (rule core_in_catalog)
  have party: "\<forall>i \<in> {0..5}. \<exists>d.
        party_fields_for_slot i = Inr d \<and>
        d = party_slot_items (PARTY_MON_1_BASE + i * PARTY_MON_STRUCT_SIZE)
              (''party['' @ py_str i @ '']'') \<and>
        length d = 17 \<and> distinct (map fst d) \<and> set d \<subseteq> set cat"
  proof (rule ballI)
    fix i :: int assume "i \<in> {0..5}"
    then have i: "0 \<le> i" "i \<le> 5" by simp_all
    let ?d = "party_slot_items (PARTY_MON_1_BASE + i * PARTY_MON_STRUCT_SIZE)
              (''party['' @ py_str i @ '']'')"
    have pfx: "''party['' @ py_str i @ '']'' = ''party['' @ [char_of (48 + nat i)] @ '']''"
      by (simp only: py_str_digit [OF i])
    have "party_fields_for_slot i = Inr ?d"
      unfolding pfx using i by (rule party_fields_for_slot_eq)
    moreover have "length ?d = 17" by (rule length_party_slot_items)
    moreover have "distinct (map fst ?d)" by (rule party_slot_items_distinct)
    moreover have "set ?d \<subseteq> set cat"
      unfolding pfx using cat i by (rule party_fields_in_catalog)
    ultimately show "\<exists>d. party_fields_for_slot i = Inr d \<and> d = ?d \<and>
        length d = 17 \<and> distinct (map fst d) \<and> set d \<subseteq> set cat" by blast
  qed
  have inv: "\<forall>(k, f) \<in> set cat.
        MemField.size_f f = encoding_width f \<and>
        (\<forall>lit value.
           case write_field lit recording_writer f value [] of
             (Inl e, calls) \<Rightarrow> calls = []
           | (Inr u, calls) \<Rightarrow>
               \<exists>data. calls = [(MemField.addr f, data)]
                 \<and> int (length data) = MemField.size_f f)"
  proof (rule ballI)
    fix x assume x: "x \<in> set cat"
    obtain k f where kf: "x = (k, f)" by (cases x)
    from build_ram_catalog_width [OF cat] x kf
    have w: "MemField.size_f f = encoding_width f" by auto
    show "case x of (k, f) \<Rightarrow>
        MemField.size_f f = encoding_width f \<and>
        (\<forall>lit value.
           case write_field lit recording_writer f value [] of
             (Inl e, calls) \<Rightarrow> calls = []
           | (Inr u, calls) \<Rightarrow>
               \<exists>data. calls = [(MemField.addr f, data)]
                 \<and> int (length data) = MemField.size_f f)"
      unfolding kf using w write_field_recorded [OF w] by simp
  qed
  from cat core length_core core_distinct party inv show ?thesis
    by (intro exI [of _ cat] conjI)
qed

theorem ram_catalog_width_invariant_witness:
  "\<exists>cat. build_ram_catalog True = Inr cat
     \<and> (''party[5].moves'', \<lparr>MemField.key = ''party[5].moves'', addr = 0xDB1C, size_f = 4,
            enc = BYTES, doc = ''Moves''\<rparr>) \<in> set cat
     \<and> (''money'', \<lparr>MemField.key = ''money'', addr = 0xD573, size_f = 3, enc = U24_BCD,
            doc = ''Money (3-byte BCD)''\<rparr>) \<in> set cat
     \<and> encoding_width \<lparr>MemField.key = ''party[5].moves'', addr = 0xDB1C, size_f = 4,
            enc = BYTES, doc = ''Moves''\<rparr> = 4
     \<and> write_field (\<lambda>b. None) recording_writer
          \<lparr>MemField.key = ''party[5].moves'', addr = 0xDB1C, size_f = 4,
            enc = BYTES, doc = ''Moves''\<rparr> (VBytes [1, 2, 3, 4]) []
        = (Inr (), [(0xDB1C, [1, 2, 3, 4])])
     \<and> write_field (\<lambda>b. None) recording_writer
          \<lparr>MemField.key = ''party[5].moves'', addr = 0xDB1C, size_f = 4,
            enc = BYTES, doc = ''Moves''\<rparr> (VBytes [1, 2, 3]) []
        = (Inl (LengthMismatch ''party[5].moves'' 4 3), [])
     \<and> write_field (\<lambda>b. None) recording_writer
          \<lparr>MemField.key = ''money'', addr = 0xD573, size_f = 3, enc = U24_BCD,
            doc = ''Money (3-byte BCD)''\<rparr> (VInt 54321) []
        = (Inr (), [(0xD573, [0x05, 0x43, 0x21])])"
proof -
  let ?m = "\<lparr>MemField.key = ''party[5].moves'', addr = 0xDB1C, size_f = 4,
            enc = BYTES, doc = ''Moves''\<rparr>"
  let ?f = "\<lparr>MemField.key = ''money'', addr = 0xD573, size_f = 3, enc = U24_BCD,
            doc = ''Money (3-byte BCD)''\<rparr>"
  from ram_catalog_width_invariant obtain cat where cat: "build_ram_catalog True = Inr cat"
    and core: "set RAM_FIELDS_CORE \<subseteq> set cat"
    and party: "\<forall>i \<in> {0..5}. \<exists>d.
        party_fields_for_slot i = Inr d \<and>
        d = party_slot_items (PARTY_MON_1_BASE + i * PARTY_MON_STRUCT_SIZE)
              (''party['' @ py_str i @ '']'') \<and>
        length d = 17 \<and> distinct (map fst d) \<and> set d \<subseteq> set cat"
    and inv: "\<forall>(k, f) \<in> set cat.
        MemField.size_f f = encoding_width f \<and>
        (\<forall>lit value.
           case write_field lit recording_writer f value [] of
             (Inl e, calls) \<Rightarrow> calls = []
           | (Inr u, calls) \<Rightarrow>
               \<exists>data. calls = [(MemField.addr f, data)]
                 \<and> int (length data) = MemField.size_f f)"
    by blast
  have "(5::int) \<in> {0..5}" by simp
  with party have "set (party_slot_items (PARTY_MON_1_BASE + 5 * PARTY_MON_STRUCT_SIZE)
              (''party['' @ py_str 5 @ '']'')) \<subseteq> set cat" by blast
  moreover have "(''party[5].moves'', ?m) \<in> set (party_slot_items
      (PARTY_MON_1_BASE + 5 * PARTY_MON_STRUCT_SIZE) (''party['' @ py_str 5 @ '']''))"
    by (simp add: party_slot_items_def py_str_5 PARTY_MON_1_BASE_def PARTY_MON_STRUCT_SIZE_def
        PARTY_MON_MOVES_OFF_def)
  ultimately have m_in: "(''party[5].moves'', ?m) \<in> set cat" by (rule subsetD)
  have "(''money'', ?f) \<in> set RAM_FIELDS_CORE" using money_in_core by (rule map_of_SomeD)
  with core have f_in: "(''money'', ?f) \<in> set cat" by (rule subsetD)
  from inv m_in have "MemField.size_f ?m = encoding_width ?m" by blast
  then have w: "encoding_width ?m = 4" by simp
  have w1: "write_field (\<lambda>b. None) recording_writer ?m (VBytes [1, 2, 3, 4]) []
        = (Inr (), [(0xDB1C, [1, 2, 3, 4])])"
    by (simp add: write_field_def recorded_call checked_blob_def err_bind_def py_bytes_def)
  have w2: "write_field (\<lambda>b. None) recording_writer ?m (VBytes [1, 2, 3]) []
        = (Inl (LengthMismatch ''party[5].moves'' 4 3), [])"
    by (simp add: write_field_def recorded_call checked_blob_def err_bind_def py_bytes_def)
  have w3: "write_field (\<lambda>b. None) recording_writer ?f (VInt 54321) []
        = (Inr (), [(0xD573, [0x05, 0x43, 0x21])])"
    by (simp add: write_field_def recorded_call err_bind_def py_int_def encode_u24_bcd_pack
        bcd_clamp_def bcd_pack_def)
  from cat m_in f_in w w1 w2 w3 show ?thesis by (intro exI [of _ cat] conjI)
qed

end
